theory Spec2Isabelle
  imports Main
begin

section \<open>JavaScript strings and the string built-ins the client uses\<close>

text \<open>
  A JavaScript string is a sequence of UTF-16 code units. A code unit is kept as a natural
  number below 65536; \<open>js\<close> turns an ASCII literal of the source into such a string.
  Bytes read from the network are \<open>char\<close>s (8 bits each).
\<close>

type_synonym jstring = "nat list"
type_synonym byte = char

definition js :: "string \<Rightarrow> jstring" where
  "js s = map of_char s"

text \<open>
  \<^verbatim>\<open>s.split('\n')\<close>: the pieces between line feeds, never an empty array. The
  first argument of \<open>split_from\<close> is the piece being read.
\<close>

fun split_from :: "jstring \<Rightarrow> jstring \<Rightarrow> jstring list" where
  "split_from piece [] = [piece]"
| "split_from piece (c # cs) =
     (if c = 10 then piece # split_from [] cs else split_from (piece @ [c]) cs)"

definition split_nl :: "jstring \<Rightarrow> jstring list" where
  "split_nl s = split_from [] s"

text \<open>
  \<^verbatim>\<open>s.trim()\<close> removes the code units of ECMAScript's WhiteSpace and LineTerminator
  productions from both ends.
\<close>

definition is_js_whitespace :: "nat \<Rightarrow> bool" where
  "is_js_whitespace c \<longleftrightarrow>
     c = 0x09 \<or> c = 0x0A \<or> c = 0x0B \<or> c = 0x0C \<or> c = 0x0D \<or> c = 0x20 \<or> c = 0xA0 \<or>
     c = 0x1680 \<or> (0x2000 \<le> c \<and> c \<le> 0x200A) \<or> c = 0x2028 \<or> c = 0x2029 \<or>
     c = 0x202F \<or> c = 0x205F \<or> c = 0x3000 \<or> c = 0xFEFF"

definition js_trim :: "jstring \<Rightarrow> jstring" where
  "js_trim s = rev (dropWhile is_js_whitespace (rev (dropWhile is_js_whitespace s)))"

text \<open>\<^verbatim>\<open>s.startsWith(p)\<close>; \<^verbatim>\<open>s.slice(6)\<close> is \<open>drop 6 s\<close>.\<close>

definition startsWith :: "jstring \<Rightarrow> jstring \<Rightarrow> bool" where
  "startsWith s p \<longleftrightarrow> take (length p) s = p"


section \<open>TextDecoder: streaming UTF-8 decoding\<close>

text \<open>
  \<^verbatim>\<open>new TextDecoder()\<close> is the UTF-8 decoder of the Encoding Standard, not fatal, with the
  byte order mark removed. \<^verbatim>\<open>decode(value, { stream: true })\<close> keeps the decoder's state
  between calls, so a character whose bytes are split over two chunks is completed by the
  second call. The record holds the decoder's variables; \<open>code point << 6 | byte & 0x3F\<close> is
  written \<open>code_point * 64 + byte mod 64\<close>, and likewise for the lead bytes.
\<close>

record utf8_decoder =
  code_point :: nat
  bytes_seen :: nat
  bytes_needed :: nat
  lower_boundary :: nat
  upper_boundary :: nat

record text_decoder =
  decoder :: utf8_decoder
  bom_seen :: bool

definition new_TextDecoder :: text_decoder where
  "new_TextDecoder =
     \<lparr>decoder = \<lparr>code_point = 0, bytes_seen = 0, bytes_needed = 0,
                  lower_boundary = 0x80, upper_boundary = 0xBF\<rparr>,
      bom_seen = False\<rparr>"

text \<open>The handler's step for a byte that starts a character (bytes needed is 0).\<close>

definition utf8_lead :: "utf8_decoder \<Rightarrow> nat \<Rightarrow> utf8_decoder \<times> nat list" where
  "utf8_lead d b =
     (if b \<le> 0x7F then (d, [b])
      else if 0xC2 \<le> b \<and> b \<le> 0xDF then
        (d\<lparr>bytes_needed := 1, code_point := b mod 32\<rparr>, [])
      else if 0xE0 \<le> b \<and> b \<le> 0xEF then
        (d\<lparr>lower_boundary := (if b = 0xE0 then 0xA0 else lower_boundary d),
           upper_boundary := (if b = 0xED then 0x9F else upper_boundary d),
           bytes_needed := 2, code_point := b mod 16\<rparr>, [])
      else if 0xF0 \<le> b \<and> b \<le> 0xF4 then
        (d\<lparr>lower_boundary := (if b = 0xF0 then 0x90 else lower_boundary d),
           upper_boundary := (if b = 0xF4 then 0x8F else upper_boundary d),
           bytes_needed := 3, code_point := b mod 8\<rparr>, [])
      else (d, [0xFFFD]))"

text \<open>
  One byte through the handler. A byte outside the expected range ends the pending
  character with U+FFFD and is then handled again as the start of a character.
\<close>

definition utf8_handler :: "utf8_decoder \<Rightarrow> nat \<Rightarrow> utf8_decoder \<times> nat list" where
  "utf8_handler d b =
     (if bytes_needed d = 0 then utf8_lead d b
      else if b < lower_boundary d \<or> upper_boundary d < b then
        (let (d', out) = utf8_lead (d\<lparr>code_point := 0, bytes_needed := 0, bytes_seen := 0,
                                       lower_boundary := 0x80, upper_boundary := 0xBF\<rparr>) b
         in (d', 0xFFFD # out))
      else
        (let cp = code_point d * 64 + b mod 64;
             d1 = d\<lparr>lower_boundary := 0x80, upper_boundary := 0xBF,
                    code_point := cp, bytes_seen := bytes_seen d + 1\<rparr>
         in if bytes_seen d1 \<noteq> bytes_needed d1 then (d1, [])
            else (d1\<lparr>code_point := 0, bytes_needed := 0, bytes_seen := 0\<rparr>, [cp])))"

fun utf8_run :: "utf8_decoder \<Rightarrow> byte list \<Rightarrow> utf8_decoder \<times> nat list" where
  "utf8_run d [] = (d, [])"
| "utf8_run d (b # bs) =
     (let (d1, out1) = utf8_handler d (of_char b);
          (d2, out2) = utf8_run d1 bs
      in (d2, out1 @ out2))"

text \<open>
  \<^verbatim>\<open>decoder.decode(value, { stream: true })\<close>: the bytes go through the handler, the
  first code point the decoder ever produces is dropped when it is U+FEFF, and the rest
  is returned as UTF-16 (a surrogate pair above U+FFFF). Bytes of an unfinished character
  stay in the decoder.
\<close>

definition strip_bom :: "bool \<Rightarrow> nat list \<Rightarrow> bool \<times> nat list" where
  "strip_bom seen cps =
     (if seen \<or> cps = [] then (seen, cps)
      else (True, if hd cps = 0xFEFF then tl cps else cps))"

definition utf16_units :: "nat \<Rightarrow> nat list" where
  "utf16_units cp =
     (if cp < 0x10000 then [cp]
      else [0xD800 + (cp - 0x10000) div 0x400, 0xDC00 + (cp - 0x10000) mod 0x400])"

definition TextDecoder_decode :: "text_decoder \<Rightarrow> byte list \<Rightarrow> text_decoder \<times> jstring" where
  "TextDecoder_decode td value =
     (let (d, cps) = utf8_run (decoder td) value;
          (seen, cps') = strip_bom (bom_seen td) cps
      in (\<lparr>decoder = d, bom_seen = seen\<rparr>, concat (map utf16_units cps')))"


section \<open>Parsed JSON and what the decoder reads from it\<close>

text \<open>
  \<^verbatim>\<open>JSON.parse\<close> is the platform's; every definition below takes it as the parameter
  \<open>parse\<close>, which gives \<open>None\<close> where \<^verbatim>\<open>JSON.parse\<close> throws a SyntaxError. A parsed
  object is the list of its own properties. A Number is kept as the two things the client
  can observe of it: whether it is zero (its truth value) and its rendering as a string.
\<close>

datatype json =
    JNull
  | JBool bool
  | JNum (num_is_zero: bool) (num_text: jstring)
  | JStr jstring
  | JArr "json list"
  | JObj "(jstring \<times> json) list"

text \<open>
  \<^verbatim>\<open>v.k\<close> for a value that is not null: an own property of an object, \<open>undefined\<close>
  (here \<open>None\<close>) for anything else. \<^verbatim>\<open>x?.k\<close> is \<open>undefined\<close> when \<open>x\<close> is
  \<open>undefined\<close> or null.
\<close>

fun member :: "json \<Rightarrow> jstring \<Rightarrow> json option" where
  "member (JObj kvs) k = map_of kvs k"
| "member _ k = None"

fun opt_member :: "json option \<Rightarrow> jstring \<Rightarrow> json option" where
  "opt_member None k = None"
| "opt_member (Some JNull) k = None"
| "opt_member (Some v) k = member v k"

datatype js_error = SyntaxError | TypeError

text \<open>
  \<^verbatim>\<open>json.result?.delta?.content\<close>: reading \<^verbatim>\<open>.result\<close> of null throws a
  TypeError.
\<close>

definition delta_content :: "json \<Rightarrow> js_error + json option" where
  "delta_content json =
     (if json = JNull then Inl TypeError
      else Inr (opt_member (opt_member (member json (js ''result'')) (js ''delta''))
                  (js ''content'')))"

fun truthy :: "json option \<Rightarrow> bool" where
  "truthy None = False"
| "truthy (Some JNull) = False"
| "truthy (Some (JBool b)) = b"
| "truthy (Some (JNum z t)) = (\<not> z)"
| "truthy (Some (JStr s)) = (s \<noteq> [])"
| "truthy (Some (JArr xs)) = True"
| "truthy (Some (JObj kvs)) = True"

text \<open>
  What \<^verbatim>\<open>fullResponse += content\<close> appends: the string itself, or the value converted
  to a string. An array is its elements joined by commas, null elements empty; a parsed
  object is \<^verbatim>\<open>[object Object]\<close>, unless it has an own property \<^verbatim>\<open>toString\<close>, which is
  never callable, and the conversion throws a TypeError (\<open>None\<close>).
\<close>

fun join_comma :: "jstring list \<Rightarrow> jstring" where
  "join_comma [] = []"
| "join_comma [s] = s"
| "join_comma (s # t # ss) = s @ 44 # join_comma (t # ss)"

fun those_strings :: "jstring option list \<Rightarrow> jstring list option" where
  "those_strings [] = Some []"
| "those_strings (None # xs) = None"
| "those_strings (Some s # xs) = map_option ((#) s) (those_strings xs)"

fun js_to_string :: "json \<Rightarrow> jstring option" where
  "js_to_string JNull = Some (js ''null'')"
| "js_to_string (JBool b) = Some (if b then js ''true'' else js ''false'')"
| "js_to_string (JNum z t) = Some t"
| "js_to_string (JStr s) = Some s"
| "js_to_string (JArr xs) =
     map_option join_comma
       (those_strings (map (\<lambda>x. if x = JNull then Some [] else js_to_string x) xs))"
| "js_to_string (JObj kvs) =
     (if js ''toString'' \<in> fst ` set kvs then None else Some (js ''[object Object]''))"


section \<open>APIService.streamMessage\<close>

text \<open>
  The function reports through its three callbacks and through \<^verbatim>\<open>console.error\<close>. Its
  model returns the calls it makes, in order. \<open>OnChunk\<close> carries the value handed to
  \<^verbatim>\<open>onChunk\<close>, which is whatever \<^verbatim>\<open>content\<close> was, provided it was truthy.
\<close>

datatype log_entry =
    ErrorParsingChunk
  | ErrorStreamingMessage jstring
  | ErrorSavingConversations
  | ErrorLoadingConversations

datatype effect =
    OnChunk json
  | OnComplete
  | OnError jstring
  | ConsoleError log_entry

text \<open>
  The body of the \<^verbatim>\<open>for\<close> loop for one line: the calls made, and whether the function
  returned (the \<^verbatim>\<open>[DONE]\<close> branch).
\<close>

definition handle_line :: "(jstring \<Rightarrow> json option) \<Rightarrow> jstring \<Rightarrow> effect list \<times> bool" where
  "handle_line parse line =
     (if js_trim line \<noteq> [] \<and> startsWith line (js ''data: '') then
        (let data = js_trim (drop 6 line) in
         if data = js ''[DONE]'' then ([OnComplete], True)
         else
           (case parse data of
              None \<Rightarrow> ([ConsoleError ErrorParsingChunk], False)
            | Some json \<Rightarrow>
                (case delta_content json of
                   Inl e \<Rightarrow> ([ConsoleError ErrorParsingChunk], False)
                 | Inr c \<Rightarrow>
                     (if truthy c then (case c of Some v \<Rightarrow> [OnChunk v] | None \<Rightarrow> [])
                      else [], False))))
      else ([], False))"

fun process_lines :: "(jstring \<Rightarrow> json option) \<Rightarrow> jstring list \<Rightarrow> effect list \<times> bool" where
  "process_lines parse [] = ([], False)"
| "process_lines parse (line # lines) =
     (let (es, returned) = handle_line parse line in
      if returned then (es, True)
      else (let (es', returned') = process_lines parse lines in (es @ es', returned')))"

text \<open>
  The body is a finite sequence of chunks; after the last one \<^verbatim>\<open>reader.read()\<close> either
  reports \<^verbatim>\<open>done\<close> or rejects. The \<^verbatim>\<open>while (true)\<close> loop is the recursion over the
  chunks, with the decoder and \<^verbatim>\<open>buffer\<close> as its variables.
\<close>

datatype stream_end = SourceClosed | ReadFailed jstring

fun read_loop ::
  "(jstring \<Rightarrow> json option) \<Rightarrow> text_decoder \<Rightarrow> jstring \<Rightarrow> byte list list \<Rightarrow> stream_end
     \<Rightarrow> effect list" where
  "read_loop parse d buffer [] SourceClosed = [OnComplete]"
| "read_loop parse d buffer [] (ReadFailed msg) =
     [ConsoleError (ErrorStreamingMessage msg), OnError msg]"
| "read_loop parse d buffer (value # rest) e =
     (let (d', text) = TextDecoder_decode d value;
          lines = split_nl (buffer @ text);
          buffer' = last lines;
          (es, returned) = process_lines parse (butlast lines)
      in if returned then es else es @ read_loop parse d' buffer' rest e)"

text \<open>
  What \<^verbatim>\<open>fetch\<close> gives: a rejection, a response that is not ok (either way an Error
  with some message is thrown inside the \<^verbatim>\<open>try\<close>), or a body to read.
\<close>

datatype response =
    FetchRejected jstring
  | NotOk jstring
  | Body "byte list list" stream_end

fun streamMessage :: "(jstring \<Rightarrow> json option) \<Rightarrow> response \<Rightarrow> effect list" where
  "streamMessage parse (FetchRejected msg) =
     [ConsoleError (ErrorStreamingMessage msg), OnError msg]"
| "streamMessage parse (NotOk msg) =
     [ConsoleError (ErrorStreamingMessage msg), OnError msg]"
| "streamMessage parse (Body chunks e) = read_loop parse new_TextDecoder [] chunks e"


section \<open>ChatPage: the conversations and the storage behind them\<close>

text \<open>
  \<^verbatim>\<open>this.conversations\<close> is an object whose properties are the persona ids and whose
  values are arrays of messages. The arrays are mutable and shared by reference
  (\<^verbatim>\<open>getCurrentMessages\<close> returns the array itself), so they live in a store: \<open>arrays\<close>
  maps a reference to the array's present contents, and \<open>next_ref\<close> is the next unused
  reference. An object is the list of its properties in creation order.

  The item \<^verbatim>\<open>masterConversations\<close> of \<^verbatim>\<open>localStorage\<close> is written by
  \<^verbatim>\<open>saveConversations\<close> alone, as \<^verbatim>\<open>JSON.stringify(this.conversations)\<close>; it is kept as
  the value that text parses back to. \<open>storage_full\<close> says that \<^verbatim>\<open>setItem\<close> throws.
  Of the page, the state keeps what \<^verbatim>\<open>sendMessage\<close> reads and what shows an outcome to the
  user: the input's value, the send button, the bubble of the answer being streamed, the
  toasts and the console. A persona id is a property name of \<^verbatim>\<open>this.conversations\<close> and
  of \<^verbatim>\<open>MASTERS\<close>; the names that every object inherits, as \<^verbatim>\<open>constructor\<close>, are not
  among the ids considered.
\<close>

record message =
  role :: jstring
  content :: jstring

datatype stored_item =
    Missing
  | Unparseable
  | Snapshot "(jstring \<times> message list) list"

datatype toast =
    ToastWait
  | ToastSwitched jstring
  | ToastCleared
  | ToastAllCleared
  | ToastSendFailed jstring

datatype bubble =
    NoBubble
  | Typing jstring
  | Shown jstring
  | ErrorShown jstring

record request =
  character :: jstring
  messages :: "message list"
  stream :: bool

record app_state =
  currentMaster :: jstring
  conversations :: "(jstring \<times> nat) list"
  isStreaming :: bool
  arrays :: "nat \<Rightarrow> message list"
  next_ref :: nat
  masterConversations :: stored_item
  storage_full :: bool
  input_value :: jstring
  send_disabled :: bool
  fullResponse :: jstring
  bubble :: bubble
  toasts :: "toast list"
  console :: "log_entry list"
  requests :: "request list"

text \<open>
  The keys of \<^verbatim>\<open>MASTERS\<close>. The source configures one master and keeps a second one
  in a comment; the functions that look a master up take the keys as \<open>masters\<close>, which
  covers the table as it is and with more masters configured. Reading a
  property of \<^verbatim>\<open>MASTERS[id]\<close> throws a TypeError when \<open>id\<close> is not a key. \<open>outcome\<close> is
  how a call ends; for the \<^verbatim>\<open>async\<close> function \<^verbatim>\<open>sendMessage\<close> it is how the promise
  settles.
\<close>

definition MASTERS :: "jstring list" where
  "MASTERS = [js ''tocqueville'']"

datatype outcome = Returned | Threw js_error

text \<open>\<^verbatim>\<open>obj[k] = v\<close>: an existing property keeps its place, a new one goes last.\<close>

fun set_prop :: "'k \<Rightarrow> 'v \<Rightarrow> ('k \<times> 'v) list \<Rightarrow> ('k \<times> 'v) list" where
  "set_prop k v [] = [(k, v)]"
| "set_prop k v ((k', v') # kvs) =
     (if k' = k then (k, v) # kvs else (k', v') # set_prop k v kvs)"

text \<open>An array literal, or an array made by \<^verbatim>\<open>JSON.parse\<close>: a reference never used before.\<close>

definition new_array :: "message list \<Rightarrow> app_state \<Rightarrow> nat \<times> app_state" where
  "new_array ms w =
     (next_ref w, w\<lparr>arrays := (arrays w)(next_ref w := ms), next_ref := Suc (next_ref w)\<rparr>)"

definition saveConversations :: "app_state \<Rightarrow> app_state" where
  "saveConversations w =
     (if storage_full w then w\<lparr>console := console w @ [ErrorSavingConversations]\<rparr>
      else w\<lparr>masterConversations :=
               Snapshot (map (\<lambda>(k, a). (k, arrays w a)) (conversations w))\<rparr>)"

text \<open>\<^verbatim>\<open>this.conversations = JSON.parse(saved)\<close>: every array of the result is new.\<close>

fun revive :: "(jstring \<times> message list) list \<Rightarrow> app_state \<Rightarrow> app_state" where
  "revive [] w = w"
| "revive ((k, ms) # rest) w =
     (let (a, w') = new_array ms w
      in revive rest (w'\<lparr>conversations := conversations w' @ [(k, a)]\<rparr>))"

definition loadConversations :: "app_state \<Rightarrow> app_state" where
  "loadConversations w =
     (let w1 = (case masterConversations w of
                  Missing \<Rightarrow> w
                | Unparseable \<Rightarrow>
                    w\<lparr>console := console w @ [ErrorLoadingConversations], conversations := []\<rparr>
                | Snapshot saved \<Rightarrow> revive saved (w\<lparr>conversations := []\<rparr>))
      in case map_of (conversations w1) (currentMaster w1) of
           Some a \<Rightarrow> w1
         | None \<Rightarrow>
             (let (a, w2) = new_array [] w1
              in w2\<lparr>conversations := set_prop (currentMaster w2) a (conversations w2)\<rparr>))"

text \<open>The constructor, on the browser state it finds.\<close>

definition new_ChatPage :: "app_state \<Rightarrow> app_state" where
  "new_ChatPage w =
     loadConversations
       (w\<lparr>currentMaster := js ''tocqueville'', conversations := [], isStreaming := False\<rparr>)"

text \<open>
  \<^verbatim>\<open>this.conversations[this.currentMaster] || []\<close>: the stored array itself when there
  is one, else a new empty array that the object does not hold.
\<close>

definition getCurrentMessages :: "app_state \<Rightarrow> nat \<times> app_state" where
  "getCurrentMessages w =
     (case map_of (conversations w) (currentMaster w) of
        Some a \<Rightarrow> (a, w)
      | None \<Rightarrow> new_array [] w)"

definition addMessageToConversation :: "jstring \<Rightarrow> jstring \<Rightarrow> app_state \<Rightarrow> app_state" where
  "addMessageToConversation r c w =
     (let (a, w1) =
            (case map_of (conversations w) (currentMaster w) of
               Some a \<Rightarrow> (a, w)
             | None \<Rightarrow>
                 (let (a, w') = new_array [] w
                  in (a, w'\<lparr>conversations := set_prop (currentMaster w') a (conversations w')\<rparr>)));
          w2 = w1\<lparr>arrays := (arrays w1)(a := arrays w1 a @ [\<lparr>role = r, content = c\<rparr>])\<rparr>
      in saveConversations w2)"

text \<open>
  \<^verbatim>\<open>clearConversation\<close> builds the question from \<^verbatim>\<open>MASTERS[this.currentMaster].name\<close>
  and asks through \<^verbatim>\<open>Modal.confirm\<close>; \<open>confirmed\<close> is the user's answer, and the callback
  \<open>clearConversation_confirmed\<close> runs only on a yes.
\<close>

definition clearConversation_confirmed :: "app_state \<Rightarrow> app_state" where
  "clearConversation_confirmed w =
     (let (a, w1) = new_array [] w;
          w2 = w1\<lparr>conversations := set_prop (currentMaster w1) a (conversations w1)\<rparr>;
          w3 = saveConversations w2
      in w3\<lparr>toasts := toasts w3 @ [ToastCleared]\<rparr>)"

definition clearConversation :: "jstring list \<Rightarrow> bool \<Rightarrow> app_state \<Rightarrow> outcome \<times> app_state" where
  "clearConversation masters confirmed w =
     (if currentMaster w \<notin> set masters then (Threw TypeError, w)
      else if confirmed then (Returned, clearConversation_confirmed w)
      else (Returned, w))"

text \<open>
  The click handler of \<^verbatim>\<open>#clear-all-conversations\<close> on the settings page, after the
  same confirmation.
\<close>

definition clear_all_conversations :: "bool \<Rightarrow> app_state \<Rightarrow> app_state" where
  "clear_all_conversations confirmed w =
     (if confirmed then
        w\<lparr>masterConversations := Missing, toasts := toasts w @ [ToastAllCleared]\<rparr>
      else w)"

text \<open>
  \<^verbatim>\<open>switchMaster\<close> assigns and then renders the page again, which reads
  \<^verbatim>\<open>MASTERS[this.currentMaster].description\<close>.
\<close>

definition switchMaster :: "jstring list \<Rightarrow> jstring \<Rightarrow> app_state \<Rightarrow> outcome \<times> app_state" where
  "switchMaster masters masterId w =
     (if isStreaming w then (Returned, w\<lparr>toasts := toasts w @ [ToastWait]\<rparr>)
      else if masterId \<in> set masters then
        (Returned, w\<lparr>currentMaster := masterId, toasts := toasts w @ [ToastSwitched masterId]\<rparr>)
      else (Threw TypeError, w\<lparr>currentMaster := masterId\<rparr>))"


section \<open>ChatPage.sendMessage\<close>

text \<open>
  The three callbacks that \<^verbatim>\<open>sendMessage\<close> hands to \<^verbatim>\<open>api.streamMessage\<close>. They
  close over \<^verbatim>\<open>fullResponse\<close> and the bubble. An exception inside \<^verbatim>\<open>onChunk\<close> (the
  conversion of \<^verbatim>\<open>content\<close> to a string can throw) is caught by the \<^verbatim>\<open>try\<close> around
  the call in \<^verbatim>\<open>streamMessage\<close> and logged there.
\<close>

definition onChunk :: "json \<Rightarrow> app_state \<Rightarrow> app_state" where
  "onChunk v w =
     (case js_to_string v of
        None \<Rightarrow> w\<lparr>console := console w @ [ErrorParsingChunk]\<rparr>
      | Some s \<Rightarrow> w\<lparr>fullResponse := fullResponse w @ s, bubble := Typing (fullResponse w @ s)\<rparr>)"

definition onComplete :: "app_state \<Rightarrow> app_state" where
  "onComplete w =
     (let w1 = w\<lparr>bubble := Shown (fullResponse w)\<rparr>;
          w2 = addMessageToConversation (js ''assistant'') (fullResponse w1) w1
      in w2\<lparr>isStreaming := False, send_disabled := False\<rparr>)"

definition onError :: "jstring \<Rightarrow> app_state \<Rightarrow> app_state" where
  "onError msg w =
     w\<lparr>bubble := ErrorShown msg, isStreaming := False, send_disabled := False,
       toasts := toasts w @ [ToastSendFailed msg]\<rparr>"

fun run_effect :: "app_state \<Rightarrow> effect \<Rightarrow> app_state" where
  "run_effect w (OnChunk v) = onChunk v w"
| "run_effect w OnComplete = onComplete w"
| "run_effect w (OnError msg) = onError msg w"
| "run_effect w (ConsoleError entry) = w\<lparr>console := console w @ [entry]\<rparr>"

text \<open>
  \<^verbatim>\<open>sendMessage\<close> up to the call of \<^verbatim>\<open>api.streamMessage\<close>, which builds the request
  body from the array at once. The second component is the outcome when the function
  has ended by then: it returns, before any assignment, when the trimmed input is empty
  or a response is being streamed, and it throws at \<^verbatim>\<open>master.avatar\<close> when the current
  master is not a key of \<^verbatim>\<open>MASTERS\<close>.
\<close>

definition sendMessage_begin :: "jstring list \<Rightarrow> app_state \<Rightarrow> app_state \<times> outcome option" where
  "sendMessage_begin masters w =
     (let content = js_trim (input_value w) in
      if content = [] \<or> isStreaming w then (w, Some Returned)
      else
        (let w1 = w\<lparr>input_value := []\<rparr>;
             w2 = addMessageToConversation (js ''user'') content w1;
             w3 = w2\<lparr>send_disabled := True, isStreaming := True\<rparr>
         in if currentMaster w3 \<notin> set masters then (w3, Some (Threw TypeError))
            else
              (let w4 = w3\<lparr>bubble := Typing [], fullResponse := []\<rparr>;
                   (msgs, w5) = getCurrentMessages w4;
                   body = \<lparr>character = currentMaster w5, messages = arrays w5 msgs,
                           stream = True\<rparr>
               in (w5\<lparr>requests := requests w5 @ [body]\<rparr>, None))))"

text \<open>
  The whole of \<^verbatim>\<open>sendMessage\<close>, given what the network answers to the request. After
  the call of \<^verbatim>\<open>api.streamMessage\<close> every path ends by returning: a failure of the
  request is caught in \<^verbatim>\<open>streamMessage\<close> and handed to \<^verbatim>\<open>onError\<close>. The turn is taken
  on its own: no other handler of the page runs while the function waits.
\<close>

definition sendMessage ::
  "jstring list \<Rightarrow> (jstring \<Rightarrow> json option) \<Rightarrow> response \<Rightarrow> app_state
     \<Rightarrow> outcome \<times> app_state" where
  "sendMessage masters parse resp w =
     (case sendMessage_begin masters w of
        (w1, Some out) \<Rightarrow> (out, w1)
      | (w1, None) \<Rightarrow> (Returned, foldl run_effect w1 (streamMessage parse resp)))"

text \<open>
  The messages a persona has, read without an effect on the store, and the contents of
  the array that \<^verbatim>\<open>getCurrentMessages\<close> returns, at the time of the call.
\<close>

definition history :: "app_state \<Rightarrow> jstring \<Rightarrow> message list" where
  "history w p = (case map_of (conversations w) p of Some a \<Rightarrow> arrays w a | None \<Rightarrow> [])"

definition read_current :: "app_state \<Rightarrow> message list" where
  "read_current w = (let (r, w') = getCurrentMessages w in arrays w' r)"

text \<open>
  The arrays of different personas are different arrays, and every reference in use is
  below \<open>next_ref\<close>. The constructor gives such a state and every operation keeps it so.
\<close>

definition wf_state :: "app_state \<Rightarrow> bool" where
  "wf_state w \<longleftrightarrow>
     distinct (map snd (conversations w)) \<and>
     list_all (\<lambda>a. a < next_ref w) (map snd (conversations w))"


section \<open>Auxiliary notions for the statements\<close>

text \<open>
  What holds of the UTF-8 decoder's variables whenever it is between two bytes: the
  boundaries stay inside the continuation range, and a pending character whose code
  point is still zero has more than one byte to come.
\<close>

definition decoder_ok :: "utf8_decoder \<Rightarrow> bool" where
  "decoder_ok d \<longleftrightarrow>
     0x80 \<le> lower_boundary d \<and> upper_boundary d \<le> 0xBF \<and>
     (bytes_needed d = 0 \<longrightarrow> bytes_seen d = 0) \<and>
     (0 < bytes_needed d \<and> code_point d = 0 \<longrightarrow>
        bytes_seen d + 1 < bytes_needed d \<and> 0x90 \<le> lower_boundary d)"


text \<open>
  The complete lines of a response body, as the decoder sees them: the decoded text of
  all chunks, split at line feeds, without the unterminated rest.
\<close>

definition stream_lines :: "byte list list \<Rightarrow> jstring list" where
  "stream_lines chunks =
     butlast (split_nl (snd (TextDecoder_decode new_TextDecoder (concat chunks))))"


text \<open>The calls that neither end the turn nor report a failure.\<close>

fun quiet :: "effect \<Rightarrow> bool" where
  "quiet (OnChunk v) = True"
| "quiet (ConsoleError entry) = True"
| "quiet OnComplete = False"
| "quiet (OnError msg) = False"


text \<open>
  What one call adds to \<^verbatim>\<open>fullResponse\<close>, and what a sequence of calls adds.
\<close>

fun fragment :: "effect \<Rightarrow> jstring" where
  "fragment (OnChunk v) = (case js_to_string v of Some s \<Rightarrow> s | None \<Rightarrow> [])"
| "fragment e = []"

definition appended_text :: "effect list \<Rightarrow> jstring" where
  "appended_text es = concat (map fragment es)"


text \<open>
  The wire format (docs/api/api.md) sends one event per line \<^verbatim>\<open>data: <JSON>\<close> and ends
  with \<^verbatim>\<open>data: [DONE]\<close>. \<open>delta_fragment\<close> is the content fragment that a line carries
  when it is a well-formed delta event, and the empty string for every other line.
\<close>

definition is_done_line :: "jstring \<Rightarrow> bool" where
  "is_done_line line \<longleftrightarrow>
     startsWith line (js ''data: '') \<and> js_trim (drop 6 line) = js ''[DONE]''"

definition delta_fragment :: "(jstring \<Rightarrow> json option) \<Rightarrow> jstring \<Rightarrow> jstring" where
  "delta_fragment parse line =
     (if startsWith line (js ''data: '') then
        (case parse (js_trim (drop 6 line)) of
           None \<Rightarrow> []
         | Some json \<Rightarrow>
             (case delta_content json of
                Inr (Some v) \<Rightarrow>
                  (if truthy (Some v) then
                     (case js_to_string v of Some s \<Rightarrow> s | None \<Rightarrow> [])
                   else [])
              | _ \<Rightarrow> []))
      else [])"


section \<open>Example inputs\<close>

text \<open>
  Payloads as the server sends them, the values \<^verbatim>\<open>JSON.parse\<close> gives for them (a
  table that stands for the parser on these texts), and browser states: one with nothing
  stored, the page constructed on it, and that page with a question typed.
\<close>

definition payload_empty :: "byte list" where
  \<open>payload_empty =
     ''{"result":{"delta":{"role":"assistant","content":""},"finish_reason":null}}''\<close>

definition payload_A :: "byte list" where
  \<open>payload_A = ''{"result":{"delta":{"content":"A"},"finish_reason":null}}''\<close>

definition payload_B :: "byte list" where
  \<open>payload_B = ''{"result":{"delta":{"content":"B"},"finish_reason":"stop"}}''\<close>

definition payload_accent :: "byte list" where
  \<open>payload_accent = ''{"result":{"delta":{"content":"'' @ [CHR 0xC3, CHR 0xA9] @ ''"}}}''\<close>

definition envelope :: "(jstring \<times> json) list \<Rightarrow> jstring \<Rightarrow> json \<Rightarrow> json" where
  "envelope extra s reason =
     JObj [(js ''result'',
            JObj [(js ''delta'', JObj (extra @ [(js ''content'', JStr s)])),
                  (js ''finish_reason'', reason)])]"

definition example_parse :: "jstring \<Rightarrow> json option" where
  \<open>example_parse s =
     (if s = js payload_empty then
        Some (envelope [(js ''role'', JStr (js ''assistant''))] [] JNull)
      else if s = js payload_A then Some (envelope [] (js ''A'') JNull)
      else if s = js payload_B then Some (envelope [] (js ''B'') (JStr (js ''stop'')))
      else if s = js ''{"result":{"delta":{"content":"'' @ [0xE9] @ js ''"}}}'' then
        Some (JObj [(js ''result'', JObj [(js ''delta'', JObj [(js ''content'', JStr [0xE9])])])])
      else None)\<close>

text \<open>
  Response bodies: an accented letter whole and cut inside its two bytes; one complete
  event; the same followed by an event whose line is never terminated.
\<close>

definition accent_whole :: "byte list list" where
  "accent_whole = [''data: '' @ payload_accent @ ''\<newline>'']"

definition accent_split :: "byte list list" where
  \<open>accent_split =
     [''da'', ''ta: {"result":{"delta":{"content":"'' @ [CHR 0xC3], [CHR 0xA9] @ ''"}}'',
      ''}\<newline>'']\<close>

definition body_A :: "byte list list" where
  "body_A = [''data: '' @ payload_A @ ''\<newline>'']"

definition unterminated_B :: "byte list" where
  "unterminated_B = ''data: '' @ payload_B"

definition body_A_unterminated_B :: "byte list list" where
  "body_A_unterminated_B = [''data: '' @ payload_A @ ''\<newline>da'', ''ta: '' @ payload_B]"

text \<open>
  The response of the scenario in the interface description: three delta events and the
  terminal line, each followed by an empty line; and a body with the terminal line in
  the middle.
\<close>

definition example_wire :: "byte list" where
  "example_wire =
     ''data: '' @ payload_empty @ ''\<newline>\<newline>'' @
     ''data: '' @ payload_A @ ''\<newline>\<newline>'' @
     ''data: '' @ payload_B @ ''\<newline>\<newline>'' @
     ''data: [DONE]\<newline>\<newline>''"

definition scenario_chunks :: "byte list list" where
  "scenario_chunks = [take 40 example_wire, drop 40 example_wire]"

definition body_done_in_middle :: "byte list list" where
  "body_done_in_middle =
     [''data: '' @ payload_A @ ''\<newline>data: [DONE]\<newline>data: '' @ payload_B @ ''\<newline>'']"

definition body_malformed_between :: "byte list list" where
  "body_malformed_between =
     [''data: '' @ payload_A @ ''\<newline>data: {oops\<newline>data: '' @ payload_B @ ''\<newline>'']"

definition line_empty :: jstring where
  "line_empty = js (''data: '' @ payload_empty)"

definition line_A :: jstring where
  "line_A = js (''data: '' @ payload_A)"

definition line_B :: jstring where
  "line_B = js (''data: '' @ payload_B)"

definition line_done :: jstring where
  "line_done = js ''data: [DONE]''"

definition line_malformed :: jstring where
  "line_malformed = js ''data: {oops''"

definition blank_browser :: app_state where
  "blank_browser =
     \<lparr>currentMaster = [], conversations = [], isStreaming = False, arrays = (\<lambda>a. []),
      next_ref = 0, masterConversations = Missing, storage_full = False, input_value = [],
      send_disabled = False, fullResponse = [], bubble = NoBubble, toasts = [], console = [],
      requests = []\<rparr>"

definition fresh_page :: app_state where
  "fresh_page = new_ChatPage blank_browser"

definition asking :: app_state where
  "asking = fresh_page\<lparr>input_value := js ''Q''\<rparr>"

text \<open>
  More states: the page after the question was stored; with a second master configured,
  that page switched to the second one, who has no conversation yet, and after a message
  to that one; the page while the
  answer to the question is streaming, one fragment received and a second question typed.
\<close>

definition asked :: app_state where
  "asked = addMessageToConversation (js ''user'') (js ''Q'') fresh_page"

definition two_masters :: "jstring list" where
  "two_masters = MASTERS @ [js ''weber'']"

definition weber_page :: app_state where
  "weber_page = snd (switchMaster two_masters (js ''weber'') asked)"

definition weber_asked :: app_state where
  "weber_asked = addMessageToConversation (js ''user'') (js ''W'') weber_page"

definition streaming_page :: app_state where
  "streaming_page =
     (foldl run_effect (fst (sendMessage_begin MASTERS asking)) [OnChunk (JStr (js ''A''))])
       \<lparr>input_value := js ''again''\<rparr>"


section \<open>Lines and chunks\<close>

text \<open>
  Splitting into lines, decoding and the loop over the lines all work piece by piece:
  handling a text in two parts gives what handling it at once gives.
\<close>

lemma split_from_not_Nil: "split_from p s \<noteq> []"
  by (induction s arbitrary: p) auto

lemma split_from_append:
  "split_from p (a @ b) = butlast (split_from p a) @ split_from (last (split_from p a)) b"
  by (induction a arbitrary: p) (auto simp: split_from_not_Nil)

lemma split_from_no_newline: "10 \<notin> set s \<Longrightarrow> split_from p s = [p @ s]"
  by (induction s arbitrary: p) auto

lemma last_split_from_no_newline: "10 \<notin> set p \<Longrightarrow> 10 \<notin> set (last (split_from p s))"
  by (induction s arbitrary: p) (auto simp: split_from_not_Nil)

lemma split_nl_append:
  "split_nl (a @ b) = butlast (split_nl a) @ split_nl (last (split_nl a) @ b)"
proof -
  have "10 \<notin> set (last (split_from [] a))"
    by (rule last_split_from_no_newline) simp
  then have "split_from (last (split_from [] a)) b = split_from [] (last (split_from [] a) @ b)"
    using split_from_append [of "[]" "last (split_from [] a)" b]
    by (simp add: split_from_no_newline)
  then show ?thesis
    by (simp add: split_nl_def split_from_append)
qed

lemma split_nl_not_Nil: "split_nl s \<noteq> []"
  by (simp add: split_nl_def split_from_not_Nil)

lemma last_split_nl_no_newline: "10 \<notin> set (last (split_nl s))"
  by (simp add: split_nl_def last_split_from_no_newline)

lemma split_nl_no_newline: "10 \<notin> set s \<Longrightarrow> split_nl s = [s]"
  by (simp add: split_nl_def split_from_no_newline)

lemma butlast_split_nl_append:
  "butlast (split_nl (a @ b)) = butlast (split_nl a) @ butlast (split_nl (last (split_nl a) @ b))"
  by (simp add: split_nl_append [of a b] butlast_append split_nl_not_Nil)

lemma last_split_nl_append:
  "last (split_nl (a @ b)) = last (split_nl (last (split_nl a) @ b))"
  by (simp add: split_nl_append [of a b] split_nl_not_Nil)

lemma utf8_run_append:
  "utf8_run d (a @ b) =
     (let (d1, out1) = utf8_run d a; (d2, out2) = utf8_run d1 b in (d2, out1 @ out2))"
  by (induction a arbitrary: d) (auto simp: Let_def split: prod.splits)

lemma strip_bom_append:
  "strip_bom seen (xs @ ys) =
     (let (seen1, xs') = strip_bom seen xs; (seen2, ys') = strip_bom seen1 ys
      in (seen2, xs' @ ys'))"
  by (cases xs) (auto simp: strip_bom_def Let_def)

lemma TextDecoder_decode_append:
  "TextDecoder_decode td (a @ b) =
     (let (td1, t1) = TextDecoder_decode td a; (td2, t2) = TextDecoder_decode td1 b
      in (td2, t1 @ t2))"
  by (simp add: TextDecoder_decode_def utf8_run_append strip_bom_append Let_def
           split: prod.splits)

lemma TextDecoder_decode_Nil: "TextDecoder_decode td [] = (td, [])"
  by (simp add: TextDecoder_decode_def strip_bom_def)

lemma process_lines_append:
  "process_lines parse (xs @ ys) =
     (let (es, returned) = process_lines parse xs in
      if returned then (es, True)
      else (let (es', returned') = process_lines parse ys in (es @ es', returned')))"
  by (induction xs) (auto simp: Let_def split: prod.splits)

lemma read_loop_chunk:
  assumes "TextDecoder_decode td c = (td', text)"
    and "process_lines parse (butlast (split_nl (buffer @ text))) = (es, returned)"
  shows "read_loop parse td buffer (c # rest) e =
           (if returned then es
            else es @ read_loop parse td' (last (split_nl (buffer @ text))) rest e)"
  using assms by (simp add: Let_def)

lemma read_loop_join:
  "read_loop parse td buffer (c1 # c2 # rest) e = read_loop parse td buffer ((c1 @ c2) # rest) e"
proof -
  obtain td1 t1 where d1: "TextDecoder_decode td c1 = (td1, t1)"
    by (cases "TextDecoder_decode td c1")
  obtain td2 t2 where d2: "TextDecoder_decode td1 c2 = (td2, t2)"
    by (cases "TextDecoder_decode td1 c2")
  let ?l1 = "split_nl (buffer @ t1)"
  let ?l2 = "split_nl (last ?l1 @ t2)"
  obtain es1 r1 where p1: "process_lines parse (butlast ?l1) = (es1, r1)"
    by (cases "process_lines parse (butlast ?l1)")
  obtain es2 r2 where p2: "process_lines parse (butlast ?l2) = (es2, r2)"
    by (cases "process_lines parse (butlast ?l2)")
  have d12: "TextDecoder_decode td (c1 @ c2) = (td2, t1 @ t2)"
    by (simp add: TextDecoder_decode_append d1 d2)
  have b12: "butlast (split_nl (buffer @ t1 @ t2)) = butlast ?l1 @ butlast ?l2"
    using butlast_split_nl_append [of "buffer @ t1" t2] by simp
  have l12: "last (split_nl (buffer @ t1 @ t2)) = last ?l2"
    using last_split_nl_append [of "buffer @ t1" t2] by simp
  have p12: "process_lines parse (butlast (split_nl (buffer @ t1 @ t2))) =
               (if r1 then (es1, True) else (es1 @ es2, r2))"
    by (simp add: b12 process_lines_append p1 p2)
  have lhs: "read_loop parse td buffer (c1 # c2 # rest) e =
               (if r1 then es1
                else es1 @ (if r2 then es2 else es2 @ read_loop parse td2 (last ?l2) rest e))"
    by (simp only: read_loop_chunk [OF d1 p1] read_loop_chunk [OF d2 p2])
  show ?thesis
  proof (cases r1)
    case True
    then have "process_lines parse (butlast (split_nl (buffer @ t1 @ t2))) = (es1, True)"
      using p12 by simp
    from read_loop_chunk [OF d12 this] lhs True show ?thesis by simp
  next
    case False
    then have "process_lines parse (butlast (split_nl (buffer @ t1 @ t2))) = (es1 @ es2, r2)"
      using p12 by simp
    from read_loop_chunk [OF d12 this] lhs False show ?thesis by (simp add: l12)
  qed
qed

lemma read_loop_empty_chunk:
  "10 \<notin> set buffer \<Longrightarrow> read_loop parse td buffer ([] # rest) e = read_loop parse td buffer rest e"
proof -
  assume nl: "10 \<notin> set buffer"
  have "process_lines parse (butlast (split_nl (buffer @ []))) = ([], False)"
    using nl by (simp add: split_nl_no_newline)
  from read_loop_chunk [OF TextDecoder_decode_Nil this] nl show ?thesis
    by (simp add: split_nl_no_newline)
qed

lemma read_loop_concat:
  "10 \<notin> set buffer \<Longrightarrow>
     read_loop parse td buffer chunks e = read_loop parse td buffer [concat chunks] e"
proof (induction chunks arbitrary: td buffer)
  case Nil
  from read_loop_empty_chunk [OF Nil, of parse td "[]" e, symmetric] show ?case
    by (simp only: concat.simps)
next
  case (Cons c chunks)
  obtain td' t where dec: "TextDecoder_decode td c = (td', t)"
    by (cases "TextDecoder_decode td c")
  obtain es returned
    where pl: "process_lines parse (butlast (split_nl (buffer @ t))) = (es, returned)"
    by (cases "process_lines parse (butlast (split_nl (buffer @ t)))")
  have "10 \<notin> set (last (split_nl (buffer @ t)))"
    by (rule last_split_nl_no_newline)
  then have "read_loop parse td' (last (split_nl (buffer @ t))) chunks e =
             read_loop parse td' (last (split_nl (buffer @ t))) [concat chunks] e"
    by (rule Cons.IH)
  then have "read_loop parse td buffer (c # chunks) e =
             read_loop parse td buffer (c # [concat chunks]) e"
    by (simp only: read_loop_chunk [OF dec pl])
  then show ?case
    by (simp only: read_loop_join concat.simps)
qed


section \<open>The decoder between bytes\<close>

lemma decoder_ok_new: "decoder_ok (decoder new_TextDecoder)"
  by (simp add: decoder_ok_def new_TextDecoder_def)

lemma utf8_lead_ok:
  assumes "0x80 \<le> lower_boundary d" "upper_boundary d \<le> 0xBF" "bytes_seen d = 0"
    and "bytes_needed d = 0" and "utf8_lead d b = (d', out)"
  shows "decoder_ok d' \<and> (10 \<in> set out \<longrightarrow> b = 10)"
proof -
  have m32: "0xC2 \<le> b \<Longrightarrow> b \<le> 0xDF \<Longrightarrow> b mod 32 \<noteq> 0" by presburger
  have m16: "0xE0 \<le> b \<Longrightarrow> b \<le> 0xEF \<Longrightarrow> b mod 16 = 0 \<Longrightarrow> b = 0xE0" by presburger
  have m8: "0xF0 \<le> b \<Longrightarrow> b \<le> 0xF4 \<Longrightarrow> b mod 8 = 0 \<Longrightarrow> b = 0xF0" by presburger
  show ?thesis
    using assms m32 m16 m8
    by (auto simp: utf8_lead_def decoder_ok_def split: if_splits)
qed

lemma utf8_handler_ok:
  assumes "decoder_ok d" and "utf8_handler d b = (d', out)"
  shows "decoder_ok d' \<and> (10 \<in> set out \<longrightarrow> b = 10)"
proof (cases "bytes_needed d = 0")
  case True
  with assms show ?thesis
    using utf8_lead_ok [of d b d' out] by (simp add: utf8_handler_def decoder_ok_def)
next
  case pending: False
  show ?thesis
  proof (cases "b < lower_boundary d \<or> upper_boundary d < b")
    case True
    let ?r = "d\<lparr>code_point := 0, bytes_needed := 0, bytes_seen := 0,
                 lower_boundary := 0x80, upper_boundary := 0xBF\<rparr>"
    obtain d0 out0 where l: "utf8_lead ?r b = (d0, out0)"
      by (cases "utf8_lead ?r b")
    from utf8_lead_ok [OF _ _ _ _ l] have "decoder_ok d0 \<and> (10 \<in> set out0 \<longrightarrow> b = 10)"
      by simp
    with assms(2) pending True l show ?thesis
      by (auto simp: utf8_handler_def)
  next
    case False
    then have range: "lower_boundary d \<le> b" "b \<le> upper_boundary d" by auto
    have low: "code_point d = 0 \<Longrightarrow> bytes_seen d + 1 < bytes_needed d \<and> 0x90 \<le> b \<and> b \<le> 0xBF"
      using assms(1) pending range by (auto simp: decoder_ok_def)
    have nz: "code_point d * 64 + b mod 64 \<noteq> 0"
    proof (cases "code_point d = 0")
      case True
      with low have "0x90 \<le> b" "b \<le> 0xBF" by auto
      then have "b mod 64 \<noteq> 0" by presburger
      then show ?thesis by simp
    next
      case False
      then show ?thesis by simp
    qed
    have n10: "bytes_seen d + 1 = bytes_needed d \<Longrightarrow> code_point d * 64 + b mod 64 \<noteq> 10"
    proof -
      assume "bytes_seen d + 1 = bytes_needed d"
      with low have "code_point d \<noteq> 0" by auto
      then have "64 \<le> code_point d * 64" by simp
      then show ?thesis by simp
    qed
    from assms pending False nz n10 show ?thesis
      by (auto simp: utf8_handler_def decoder_ok_def Let_def split: if_splits)
  qed
qed

lemma utf8_run_ok:
  "decoder_ok d \<Longrightarrow> utf8_run d bs = (d', out) \<Longrightarrow>
     decoder_ok d' \<and> (10 \<in> set out \<longrightarrow> CHR 0x0A \<in> set bs)"
proof (induction bs arbitrary: d d' out)
  case Nil
  then show ?case by simp
next
  case (Cons b bs)
  obtain d1 out1 where h: "utf8_handler d (of_char b) = (d1, out1)"
    by (cases "utf8_handler d (of_char b)")
  obtain d2 out2 where r: "utf8_run d1 bs = (d2, out2)"
    by (cases "utf8_run d1 bs")
  from utf8_handler_ok [OF Cons.prems(1) h]
  have ok1: "decoder_ok d1" and o1: "10 \<in> set out1 \<longrightarrow> (of_char b :: nat) = 10"
    by simp_all
  from Cons.IH [OF ok1 r] have ok2: "decoder_ok d2" and o2: "10 \<in> set out2 \<longrightarrow> CHR 0x0A \<in> set bs"
    by simp_all
  have "(of_char b :: nat) = 10 \<Longrightarrow> b = CHR 0x0A"
    using of_char_eq_iff [of b "CHR 0x0A", where ?'a = nat] by simp
  with Cons.prems(2) h r ok2 o1 o2 show ?case
    by auto
qed

lemma strip_bom_subset: "strip_bom seen cps = (seen', cps') \<Longrightarrow> set cps' \<subseteq> set cps"
  by (cases cps) (auto simp: strip_bom_def split: if_splits)

lemma newline_in_utf16_units: "10 \<in> set (utf16_units cp) \<longleftrightarrow> cp = 10"
  by (simp add: utf16_units_def)

lemma TextDecoder_decode_ok:
  assumes "decoder_ok (decoder td)" and "TextDecoder_decode td bs = (td', t)"
  shows "decoder_ok (decoder td') \<and> (CHR 0x0A \<notin> set bs \<longrightarrow> 10 \<notin> set t)"
proof -
  obtain d cps where r: "utf8_run (decoder td) bs = (d, cps)"
    by (cases "utf8_run (decoder td) bs")
  obtain seen cps' where s: "strip_bom (bom_seen td) cps = (seen, cps')"
    by (cases "strip_bom (bom_seen td) cps")
  from assms(2) r s have td': "td' = \<lparr>decoder = d, bom_seen = seen\<rparr>"
    and t: "t = concat (map utf16_units cps')"
    by (simp_all add: TextDecoder_decode_def)
  from utf8_run_ok [OF assms(1) r] have ok: "decoder_ok d"
    and nl: "10 \<in> set cps \<longrightarrow> CHR 0x0A \<in> set bs"
    by simp_all
  have "10 \<in> set t \<Longrightarrow> 10 \<in> set cps'"
    using t by (auto simp: newline_in_utf16_units)
  with strip_bom_subset [OF s] nl have "CHR 0x0A \<notin> set bs \<longrightarrow> 10 \<notin> set t"
    by auto
  with ok td' show ?thesis by simp
qed


section \<open>The store\<close>

lemma map_of_set_prop:
  "map_of (set_prop k v kvs) k' = (if k' = k then Some v else map_of kvs k')"
  by (induction kvs) auto

lemma in_set_prop:
  "(k', v') \<in> set (set_prop k v kvs) \<Longrightarrow> v' = v \<or> v' \<in> snd ` set kvs"
  by (induction kvs) (force split: if_splits)+

lemma set_snd_set_prop: "set (map snd (set_prop k v kvs)) \<subseteq> insert v (set (map snd kvs))"
  using in_set_prop [of _ _ k v kvs] by fastforce

lemma distinct_snd_set_prop:
  "distinct (map snd kvs) \<Longrightarrow> v \<notin> set (map snd kvs) \<Longrightarrow> distinct (map snd (set_prop k v kvs))"
proof (induction kvs)
  case Nil
  then show ?case by simp
next
  case (Cons kv kvs)
  obtain k' v' where kv: "kv = (k', v')" by (cases kv)
  show ?case
  proof (cases "k' = k")
    case True
    with Cons.prems kv show ?thesis by simp
  next
    case False
    have "snd kv \<notin> set (map snd (set_prop k v kvs))"
      using set_snd_set_prop [of k v kvs] Cons.prems by auto
    with Cons False kv show ?thesis by simp
  qed
qed

lemma map_of_snd_inj:
  assumes "distinct (map snd kvs)" and "map_of kvs p = Some a" and "map_of kvs q = Some a"
  shows "p = q"
proof -
  have "(p, a) \<in> set kvs" and "(q, a) \<in> set kvs"
    using assms by (auto dest: map_of_SomeD)
  moreover have "inj_on snd (set kvs)"
    using assms(1) by (simp add: distinct_map)
  ultimately have "(p, a) = (q, a)"
    by (intro inj_onD [of snd "set kvs"]) simp_all
  then show ?thesis by simp
qed

lemma map_of_below:
  "list_all (\<lambda>a. a < n) (map snd kvs) \<Longrightarrow> map_of kvs q = Some b \<Longrightarrow> b < n"
  by (auto simp: list_all_iff dest!: map_of_SomeD)

lemma history_add_current:
  "history (addMessageToConversation r c w) (currentMaster w) =
     history w (currentMaster w) @ [\<lparr>role = r, content = c\<rparr>]"
  by (simp add: addMessageToConversation_def history_def saveConversations_def new_array_def
        map_of_set_prop Let_def split: option.splits)

lemma history_add_other:
  assumes "wf_state w" and "q \<noteq> currentMaster w"
  shows "history (addMessageToConversation r c w) q = history w q"
proof (cases "map_of (conversations w) (currentMaster w)")
  case None
  have "\<And>b. map_of (conversations w) q = Some b \<Longrightarrow> b \<noteq> next_ref w"
    using assms(1) map_of_below [of "next_ref w" "conversations w" q]
    by (auto simp: wf_state_def)
  with None assms(2) show ?thesis
    by (auto simp: addMessageToConversation_def history_def saveConversations_def new_array_def
          map_of_set_prop Let_def split: option.splits)
next
  case (Some a)
  have "\<And>b. map_of (conversations w) q = Some b \<Longrightarrow> b \<noteq> a"
    using assms Some map_of_snd_inj [of "conversations w" q a "currentMaster w"]
    by (auto simp: wf_state_def)
  with Some show ?thesis
    by (auto simp: addMessageToConversation_def history_def saveConversations_def
          Let_def split: option.splits)
qed

lemma add_fields [simp]:
  "currentMaster (addMessageToConversation r c w) = currentMaster w"
  "isStreaming (addMessageToConversation r c w) = isStreaming w"
  "input_value (addMessageToConversation r c w) = input_value w"
  "send_disabled (addMessageToConversation r c w) = send_disabled w"
  "fullResponse (addMessageToConversation r c w) = fullResponse w"
  "bubble (addMessageToConversation r c w) = bubble w"
  "toasts (addMessageToConversation r c w) = toasts w"
  "requests (addMessageToConversation r c w) = requests w"
  "storage_full (addMessageToConversation r c w) = storage_full w"
  by (simp_all add: addMessageToConversation_def saveConversations_def new_array_def
        Let_def split: option.splits)

lemma wf_state_add: "wf_state w \<Longrightarrow> wf_state (addMessageToConversation r c w)"
proof (cases "map_of (conversations w) (currentMaster w)")
  case None
  assume wf: "wf_state w"
  then have fresh: "next_ref w \<notin> set (map snd (conversations w))"
    by (auto simp: wf_state_def list_all_iff)
  have "list_all (\<lambda>a. a < Suc (next_ref w))
          (map snd (set_prop (currentMaster w) (next_ref w) (conversations w)))"
    using wf in_set_prop [of _ _ "currentMaster w" "next_ref w" "conversations w"]
    by (fastforce simp: wf_state_def list_all_iff less_Suc_eq)
  with None wf fresh show ?thesis
    by (simp add: addMessageToConversation_def saveConversations_def new_array_def
          wf_state_def distinct_snd_set_prop Let_def)
next
  case (Some a)
  assume "wf_state w"
  with Some show ?thesis
    by (simp add: addMessageToConversation_def saveConversations_def wf_state_def Let_def)
qed

section \<open>What a stream calls\<close>

text \<open>
  The calls of \<^verbatim>\<open>streamMessage\<close> are determined by the lines of the decoded body. A
  body that closes ends with one call of \<^verbatim>\<open>onComplete\<close>, after calls of \<^verbatim>\<open>onChunk\<close> and
  entries in the console only.
\<close>

lemma read_loop_Nil:
  "read_loop parse td buffer [] e = read_loop parse td' buffer' [] e"
  by (cases e) simp_all

lemma streamMessage_lines:
  "streamMessage parse (Body chunks e) =
     (case process_lines parse (stream_lines chunks) of
        (es, returned) \<Rightarrow>
          if returned then es else es @ read_loop parse new_TextDecoder [] [] e)"
proof -
  obtain td t where d: "TextDecoder_decode new_TextDecoder (concat chunks) = (td, t)"
    by (cases "TextDecoder_decode new_TextDecoder (concat chunks)")
  obtain es returned where p: "process_lines parse (butlast (split_nl ([] @ t))) = (es, returned)"
    by (cases "process_lines parse (butlast (split_nl ([] @ t)))")
  have "streamMessage parse (Body chunks e) =
          read_loop parse new_TextDecoder [] [concat chunks] e"
    using read_loop_concat [of "[]" parse new_TextDecoder chunks e] by simp
  also have "\<dots> = (if returned then es else es @ read_loop parse td (last (split_nl ([] @ t))) [] e)"
    by (rule read_loop_chunk [OF d p])
  also have "\<dots> = (if returned then es else es @ read_loop parse new_TextDecoder [] [] e)"
    using read_loop_Nil [of parse td "last (split_nl ([] @ t))" e new_TextDecoder "[]"] by simp
  finally show ?thesis
    using d p by (simp add: stream_lines_def)
qed

lemma handle_line_quiet:
  "handle_line parse line = (es, returned) \<Longrightarrow>
     (if returned then es = [OnComplete] else list_all quiet es)"
  by (auto simp: handle_line_def Let_def split: if_splits option.splits sum.splits)

lemma process_lines_quiet:
  "process_lines parse ls = (es, returned) \<Longrightarrow>
     (if returned then \<exists>es0. es = es0 @ [OnComplete] \<and> list_all quiet es0
      else list_all quiet es)"
proof (induction ls arbitrary: es returned)
  case Nil
  then show ?case by simp
next
  case (Cons l ls)
  obtain e1 r1 where h: "handle_line parse l = (e1, r1)"
    by (cases "handle_line parse l")
  obtain e2 r2 where p: "process_lines parse ls = (e2, r2)"
    by (cases "process_lines parse ls")
  show ?case
  proof (cases r1)
    case True
    with handle_line_quiet [OF h] Cons.prems h show ?thesis
      by auto
  next
    case False
    with handle_line_quiet [OF h] have q1: "list_all quiet e1" by simp
    from False Cons.prems h p have es: "es = e1 @ e2" and r: "returned = r2"
      by simp_all
    show ?thesis
    proof (cases r2)
      case True
      with Cons.IH [OF p] obtain es0 where "e2 = es0 @ [OnComplete]" "list_all quiet es0"
        by auto
      with q1 es r True show ?thesis
        by (auto intro: exI [of _ "e1 @ es0"])
    next
      case False
      with Cons.IH [OF p] q1 es r show ?thesis by simp
    qed
  qed
qed

lemma streamMessage_closed:
  "\<exists>es0. streamMessage parse (Body chunks SourceClosed) = es0 @ [OnComplete] \<and> list_all quiet es0"
proof -
  obtain es returned where p: "process_lines parse (stream_lines chunks) = (es, returned)"
    by (cases "process_lines parse (stream_lines chunks)")
  have sm: "streamMessage parse (Body chunks SourceClosed) =
              (if returned then es else es @ [OnComplete])"
    by (simp only: streamMessage_lines p read_loop.simps prod.case)
  show ?thesis
  proof (cases returned)
    case True
    with process_lines_quiet [OF p] sm show ?thesis by auto
  next
    case False
    with process_lines_quiet [OF p] sm show ?thesis by auto
  qed
qed

lemma read_loop_remainder:
  assumes "decoder_ok (decoder td)" and "CHR 0x0A \<notin> set r"
  shows "read_loop parse td buffer [bs @ r] SourceClosed = read_loop parse td buffer [bs] SourceClosed"
proof -
  obtain td1 t1 where d1: "TextDecoder_decode td bs = (td1, t1)"
    by (cases "TextDecoder_decode td bs")
  obtain td2 t2 where d2: "TextDecoder_decode td1 r = (td2, t2)"
    by (cases "TextDecoder_decode td1 r")
  from TextDecoder_decode_ok [OF assms(1) d1] have "decoder_ok (decoder td1)" by simp
  from TextDecoder_decode_ok [OF this d2] assms(2) have t2: "10 \<notin> set t2" by simp
  let ?l1 = "split_nl (buffer @ t1)"
  obtain es returned where p: "process_lines parse (butlast ?l1) = (es, returned)"
    by (cases "process_lines parse (butlast ?l1)")
  have d12: "TextDecoder_decode td (bs @ r) = (td2, t1 @ t2)"
    by (simp add: TextDecoder_decode_append d1 d2)
  have "10 \<notin> set (last ?l1 @ t2)"
    using t2 last_split_nl_no_newline [of "buffer @ t1"] by simp
  then have "butlast (split_nl (last ?l1 @ t2)) = []"
    by (simp add: split_nl_no_newline)
  then have "butlast (split_nl (buffer @ t1 @ t2)) = butlast ?l1"
    using butlast_split_nl_append [of "buffer @ t1" t2] by simp
  then have p12: "process_lines parse (butlast (split_nl (buffer @ t1 @ t2))) = (es, returned)"
    using p by simp
  show ?thesis
    by (simp only: read_loop_chunk [OF d12 p12] read_loop_chunk [OF d1 p]
          read_loop_Nil [of parse td2 _ SourceClosed td1 "last ?l1"])
qed

section \<open>The callbacks and the turn\<close>

lemma run_quiet:
  assumes "quiet e"
  shows "conversations (run_effect w e) = conversations w"
    and "arrays (run_effect w e) = arrays w"
    and "next_ref (run_effect w e) = next_ref w"
    and "currentMaster (run_effect w e) = currentMaster w"
    and "isStreaming (run_effect w e) = isStreaming w"
    and "input_value (run_effect w e) = input_value w"
    and "send_disabled (run_effect w e) = send_disabled w"
    and "toasts (run_effect w e) = toasts w"
    and "requests (run_effect w e) = requests w"
    and "masterConversations (run_effect w e) = masterConversations w"
    and "storage_full (run_effect w e) = storage_full w"
    and "fullResponse (run_effect w e) = fullResponse w @ fragment e"
  using assms by (cases e; simp add: onChunk_def split: option.splits)+

lemma fold_quiet:
  assumes "list_all quiet es"
  shows "conversations (foldl run_effect w es) = conversations w"
    and "arrays (foldl run_effect w es) = arrays w"
    and "next_ref (foldl run_effect w es) = next_ref w"
    and "currentMaster (foldl run_effect w es) = currentMaster w"
    and "isStreaming (foldl run_effect w es) = isStreaming w"
    and "input_value (foldl run_effect w es) = input_value w"
    and "send_disabled (foldl run_effect w es) = send_disabled w"
    and "toasts (foldl run_effect w es) = toasts w"
    and "requests (foldl run_effect w es) = requests w"
    and "masterConversations (foldl run_effect w es) = masterConversations w"
    and "storage_full (foldl run_effect w es) = storage_full w"
    and "fullResponse (foldl run_effect w es) = fullResponse w @ appended_text es"
  using assms
  by (induction es rule: rev_induct; simp add: run_quiet appended_text_def)+

lemma history_cong:
  "conversations w' = conversations w \<Longrightarrow> arrays w' = arrays w \<Longrightarrow> history w' p = history w p"
  by (simp add: history_def split: option.splits)

lemma history_fold_quiet:
  "list_all quiet es \<Longrightarrow> history (foldl run_effect w es) p = history w p"
  by (rule history_cong) (simp_all add: fold_quiet)

lemma add_has_entry:
  "\<exists>a. map_of (conversations (addMessageToConversation r c w)) (currentMaster w) = Some a"
  by (simp add: addMessageToConversation_def saveConversations_def new_array_def
        map_of_set_prop Let_def split: option.splits)

lemma sendMessage_begin_rejects:
  "js_trim (input_value w) = [] \<or> isStreaming w \<Longrightarrow>
     sendMessage_begin masters w = (w, Some Returned)"
  by (auto simp: sendMessage_begin_def Let_def)

lemma sendMessage_begin_accepts:
  assumes "\<not> isStreaming w" and "js_trim (input_value w) \<noteq> []"
    and "currentMaster w \<in> set masters"
  shows "snd (sendMessage_begin masters w) = None"
    and "history (fst (sendMessage_begin masters w)) (currentMaster w) =
           history w (currentMaster w) @ [\<lparr>role = js ''user'', content = js_trim (input_value w)\<rparr>]"
    and "currentMaster (fst (sendMessage_begin masters w)) = currentMaster w"
    and "isStreaming (fst (sendMessage_begin masters w))"
    and "fullResponse (fst (sendMessage_begin masters w)) = []"
    and "toasts (fst (sendMessage_begin masters w)) = toasts w"
    and "input_value (fst (sendMessage_begin masters w)) = []"
proof -
  let ?w2 = "addMessageToConversation (js ''user'') (js_trim (input_value w)) (w\<lparr>input_value := []\<rparr>)"
  let ?w3 = "?w2\<lparr>send_disabled := True, isStreaming := True, bubble := Typing [], fullResponse := []\<rparr>"
  obtain a where a: "map_of (conversations ?w2) (currentMaster w) = Some a"
    using add_has_entry [of "js ''user''" "js_trim (input_value w)" "w\<lparr>input_value := []\<rparr>"] by auto
  then have g: "getCurrentMessages ?w3 = (a, ?w3)"
    by (simp add: getCurrentMessages_def)
  have b: "sendMessage_begin masters w =
             (?w3\<lparr>requests := requests ?w3 @
                 [\<lparr>character = currentMaster ?w3, messages = arrays ?w3 a, stream = True\<rparr>]\<rparr>, None)"
    using assms g by (simp add: sendMessage_begin_def Let_def)
  have h: "history ?w2 (currentMaster w) =
             history w (currentMaster w) @ [\<lparr>role = js ''user'', content = js_trim (input_value w)\<rparr>]"
    using history_add_current [of "js ''user''" "js_trim (input_value w)" "w\<lparr>input_value := []\<rparr>"]
      history_cong [of "w\<lparr>input_value := []\<rparr>" w "currentMaster w"]
    by simp
  show "snd (sendMessage_begin masters w) = None" by (simp add: b)
  show "history (fst (sendMessage_begin masters w)) (currentMaster w) =
           history w (currentMaster w) @ [\<lparr>role = js ''user'', content = js_trim (input_value w)\<rparr>]"
    using h history_cong [of "fst (sendMessage_begin masters w)" ?w2 "currentMaster w"]
    by (simp add: b)
  show "currentMaster (fst (sendMessage_begin masters w)) = currentMaster w" by (simp add: b)
  show "isStreaming (fst (sendMessage_begin masters w))" by (simp add: b)
  show "fullResponse (fst (sendMessage_begin masters w)) = []" by (simp add: b)
  show "toasts (fst (sendMessage_begin masters w)) = toasts w" by (simp add: b)
  show "input_value (fst (sendMessage_begin masters w)) = []" by (simp add: b)
qed

lemma onComplete_fields:
  "history (onComplete w) (currentMaster w) =
     history w (currentMaster w) @ [\<lparr>role = js ''assistant'', content = fullResponse w\<rparr>]"
  "\<not> isStreaming (onComplete w)"
  "toasts (onComplete w) = toasts w"
  "bubble (onComplete w) = Shown (fullResponse w)"
  "fullResponse (onComplete w) = fullResponse w"
  "currentMaster (onComplete w) = currentMaster w"
  "\<not> send_disabled (onComplete w)"
proof -
  show "history (onComplete w) (currentMaster w) =
     history w (currentMaster w) @ [\<lparr>role = js ''assistant'', content = fullResponse w\<rparr>]"
    using history_add_current [of "js ''assistant''" "fullResponse w" "w\<lparr>bubble := Shown (fullResponse w)\<rparr>"]
      history_cong [of "w\<lparr>bubble := Shown (fullResponse w)\<rparr>" w "currentMaster w"]
      history_cong [of "onComplete w"
        "addMessageToConversation (js ''assistant'') (fullResponse w) (w\<lparr>bubble := Shown (fullResponse w)\<rparr>)"
        "currentMaster w"]
    by (simp add: onComplete_def Let_def)
qed (simp_all add: onComplete_def Let_def)

lemma sendMessage_commits:
  assumes "\<not> isStreaming w" and "js_trim (input_value w) \<noteq> []"
    and "streamMessage parse resp = es0 @ [OnComplete]" and "list_all quiet es0"
    and "currentMaster w \<in> set masters"
  shows "fst (sendMessage masters parse resp w) = Returned"
    and "history (snd (sendMessage masters parse resp w)) (currentMaster w) =
           history w (currentMaster w) @
             [\<lparr>role = js ''user'', content = js_trim (input_value w)\<rparr>,
              \<lparr>role = js ''assistant'', content = appended_text es0\<rparr>]"
    and "\<not> isStreaming (snd (sendMessage masters parse resp w))"
    and "toasts (snd (sendMessage masters parse resp w)) = toasts w"
    and "bubble (snd (sendMessage masters parse resp w)) = Shown (appended_text es0)"
    and "currentMaster (snd (sendMessage masters parse resp w)) = currentMaster w"
proof -
  let ?w1 = "fst (sendMessage_begin masters w)"
  let ?wq = "foldl run_effect ?w1 es0"
  note b = sendMessage_begin_accepts [OF assms(1,2,5)]
  obtain w1 ended where sb: "sendMessage_begin masters w = (w1, ended)"
    by (cases "sendMessage_begin masters w")
  with b(1) have "ended = None" by simp
  with sb assms(3) have s: "sendMessage masters parse resp w = (Returned, onComplete ?wq)"
    by (simp add: sendMessage_def)
  have cm: "currentMaster ?wq = currentMaster w"
    by (simp add: fold_quiet [OF assms(4)] b)
  have fr: "fullResponse ?wq = appended_text es0"
    by (simp add: fold_quiet [OF assms(4)] b)
  have h: "history ?wq (currentMaster w) =
             history w (currentMaster w) @ [\<lparr>role = js ''user'', content = js_trim (input_value w)\<rparr>]"
    by (simp add: history_fold_quiet [OF assms(4)] b)
  show "fst (sendMessage masters parse resp w) = Returned" by (simp add: s)
  show "history (snd (sendMessage masters parse resp w)) (currentMaster w) =
           history w (currentMaster w) @
             [\<lparr>role = js ''user'', content = js_trim (input_value w)\<rparr>,
              \<lparr>role = js ''assistant'', content = appended_text es0\<rparr>]"
    using onComplete_fields(1) [of ?wq] by (simp add: s cm fr h)
  show "\<not> isStreaming (snd (sendMessage masters parse resp w))"
    by (simp add: s onComplete_fields)
  show "toasts (snd (sendMessage masters parse resp w)) = toasts w"
    by (simp add: s onComplete_fields fold_quiet [OF assms(4)] b)
  show "bubble (snd (sendMessage masters parse resp w)) = Shown (appended_text es0)"
    by (simp add: s onComplete_fields fr)
  show "currentMaster (snd (sendMessage masters parse resp w)) = currentMaster w"
    by (simp add: s onComplete_fields cm)
qed

section \<open>A stream that ends on a line boundary\<close>

lemmas decode_defs = Let_def js_def split_nl_def new_TextDecoder_def TextDecoder_decode_def
  utf8_handler_def utf8_lead_def strip_bom_def utf16_units_def

lemmas line_defs = Let_def js_def js_trim_def is_js_whitespace_def startsWith_def
  handle_line_def delta_content_def

lemmas payload_defs = payload_empty_def payload_A_def payload_B_def payload_accent_def
  example_parse_def envelope_def

lemma utf8_run_ascii:
  "bytes_needed d = 0 \<Longrightarrow> \<forall>b\<in>set bs. (of_char b :: nat) \<le> 0x7F \<Longrightarrow>
     utf8_run d bs = (d, map of_char bs)"
  by (induction bs) (simp_all add: utf8_handler_def utf8_lead_def)

lemma TextDecoder_decode_ascii:
  assumes "bytes_needed (decoder td) = 0" and "\<forall>b\<in>set bs. (of_char b :: nat) \<le> 0x7F"
    and "bs \<noteq> []"
  shows "snd (TextDecoder_decode td bs) = js bs"
proof -
  have "hd (map of_char bs) \<noteq> (0xFEFF :: nat)"
    using assms(2,3) by (cases bs) auto
  moreover have "concat (map utf16_units (map of_char bs)) = map of_char bs"
    using assms(2) by (induction bs) (simp_all add: utf16_units_def)
  ultimately show ?thesis
    using assms(3) by (simp add: TextDecoder_decode_def utf8_run_ascii [OF assms(1,2)]
        strip_bom_def js_def)
qed

lemma utf8_handler_newline:
  assumes "decoder_ok d"
  shows "\<exists>d' out. utf8_handler d 10 = (d', out @ [10]) \<and> bytes_needed d' = 0"
proof (cases "bytes_needed d = 0")
  case True
  then show ?thesis
    by (simp add: utf8_handler_def utf8_lead_def)
next
  case False
  moreover have "10 < lower_boundary d"
    using assms by (simp add: decoder_ok_def)
  ultimately show ?thesis
    by (simp add: utf8_handler_def utf8_lead_def)
qed

lemma strip_bom_ends_newline:
  "\<exists>seen' cps'. strip_bom seen (cps @ [10]) = (seen', cps' @ [10])"
proof (cases "seen \<or> cps = [] \<or> hd cps \<noteq> 0xFEFF")
  case True
  then have "snd (strip_bom seen (cps @ [10])) = cps @ [10]"
    by (cases cps) (auto simp: strip_bom_def)
  then show ?thesis
    by (cases "strip_bom seen (cps @ [10])") auto
next
  case False
  then have "snd (strip_bom seen (cps @ [10])) = tl cps @ [10]"
    by (cases cps) (auto simp: strip_bom_def)
  then show ?thesis
    by (cases "strip_bom seen (cps @ [10])") auto
qed

lemma TextDecoder_decode_newline:
  assumes "decoder_ok (decoder td)"
  shows "\<exists>td' t. TextDecoder_decode td (bs @ [CHR 0x0A]) = (td', t @ [10]) \<and>
           bytes_needed (decoder td') = 0"
proof -
  obtain d1 o1 where r1: "utf8_run (decoder td) bs = (d1, o1)"
    by (cases "utf8_run (decoder td) bs")
  from utf8_run_ok [OF assms r1] have "decoder_ok d1" by simp
  from utf8_handler_newline [OF this] obtain d2 o2
    where h: "utf8_handler d1 10 = (d2, o2 @ [10])" and n: "bytes_needed d2 = 0"
    by auto
  have r: "utf8_run (decoder td) (bs @ [CHR 0x0A]) = (d2, (o1 @ o2) @ [10])"
    using r1 h by (simp add: utf8_run_append)
  obtain seen cps where s: "strip_bom (bom_seen td) ((o1 @ o2) @ [10]) = (seen, cps @ [10])"
    using strip_bom_ends_newline [of "bom_seen td" "o1 @ o2"] by auto
  have "concat (map utf16_units (cps @ [10])) = concat (map utf16_units cps) @ [10]"
    by (simp add: utf16_units_def)
  with r s n show ?thesis
    by (simp add: TextDecoder_decode_def)
qed

lemma split_from_ends_newline: "10 \<notin> set p \<Longrightarrow> split_from q (p @ [10]) = [q @ p, []]"
  by (induction p arbitrary: q) auto

lemma split_nl_one_line: "10 \<notin> set p \<Longrightarrow> split_nl (p @ [10]) = [p, []]"
  using split_from_ends_newline [of p "[]"] by (simp add: split_nl_def)

lemma split_nl_ends_newline:
  "butlast (split_nl (t @ [10])) = butlast (split_nl t) @ [last (split_nl t)]"
  "last (split_nl (t @ [10])) = []"
  by (simp_all add: split_nl_append [of t "[10]"] butlast_append
        split_nl_one_line [OF last_split_nl_no_newline])

lemma read_loop_first:
  assumes "TextDecoder_decode td c = (td', t)"
    and "process_lines parse (butlast (split_nl t)) = (es, returned)"
  shows "read_loop parse td [] (c # rest) e =
           (if returned then es else es @ read_loop parse td' (last (split_nl t)) rest e)"
  using assms by (simp add: Let_def)

lemma done_line: "handle_line parse (js ''data: [DONE]'') = ([OnComplete], True)"
  by (simp add: line_defs)

lemma split_done: "split_nl (js ''data: [DONE]\<newline>'') = [js ''data: [DONE]'', []]"
  by (simp add: js_def split_nl_def)

lemma read_loop_sentinel_first:
  "read_loop parse new_TextDecoder [] [''data: [DONE]\<newline>''] e = [OnComplete]"
proof -
  have "snd (TextDecoder_decode new_TextDecoder ''data: [DONE]\<newline>'') = js ''data: [DONE]\<newline>''"
    by (rule TextDecoder_decode_ascii) (simp_all add: new_TextDecoder_def)
  then obtain td where d: "TextDecoder_decode new_TextDecoder ''data: [DONE]\<newline>''
      = (td, js ''data: [DONE]\<newline>'')"
    by (cases "TextDecoder_decode new_TextDecoder ''data: [DONE]\<newline>''") simp
  have p: "process_lines parse (butlast (split_nl (js ''data: [DONE]\<newline>''))) = ([OnComplete], True)"
    by (simp add: split_done done_line)
  from read_loop_first [OF d p] show ?thesis by simp
qed

lemma read_loop_sentinel_after_newline:
  "read_loop parse new_TextDecoder [] [(bs @ [CHR 0x0A]) @ ''data: [DONE]\<newline>''] e =
     read_loop parse new_TextDecoder [] [bs @ [CHR 0x0A]] SourceClosed"
proof -
  obtain td1 t1 where d1: "TextDecoder_decode new_TextDecoder (bs @ [CHR 0x0A]) = (td1, t1 @ [10])"
    and n1: "bytes_needed (decoder td1) = 0"
    using TextDecoder_decode_newline [OF decoder_ok_new, of bs] by auto
  have "snd (TextDecoder_decode td1 ''data: [DONE]\<newline>'') = js ''data: [DONE]\<newline>''"
    by (rule TextDecoder_decode_ascii) (simp_all add: n1)
  then obtain td2 where d2: "TextDecoder_decode td1 ''data: [DONE]\<newline>''
      = (td2, js ''data: [DONE]\<newline>'')"
    by (cases "TextDecoder_decode td1 ''data: [DONE]\<newline>''") simp
  have d12: "TextDecoder_decode new_TextDecoder ((bs @ [CHR 0x0A]) @ ''data: [DONE]\<newline>'')
      = (td2, (t1 @ [10]) @ js ''data: [DONE]\<newline>'')"
    by (simp only: TextDecoder_decode_append [of _ "bs @ [CHR 0x0A]"] d1 d2 prod.case Let_def)
  let ?L = "butlast (split_nl (t1 @ [10]))"
  let ?all = "butlast (split_nl ((t1 @ [10]) @ js ''data: [DONE]\<newline>''))"
  obtain es returned where p: "process_lines parse ?L = (es, returned)"
    by (cases "process_lines parse ?L")
  have e1: "last (split_nl (t1 @ [10])) = []"
    by (rule split_nl_ends_newline(2))
  have e2: "butlast (split_nl ([] @ js ''data: [DONE]\<newline>'')) = [js ''data: [DONE]'']"
    by (simp add: split_done)
  have "?all = ?L @ [js ''data: [DONE]'']"
    unfolding butlast_split_nl_append [of "t1 @ [10]" "js ''data: [DONE]\<newline>''"] e1 e2
    by (rule refl)
  then have p12: "process_lines parse ?all = (if returned then (es, True) else (es @ [OnComplete], True))"
    by (simp add: process_lines_append p done_line)
  show ?thesis
  proof (cases returned)
    case True
    with p12 have "process_lines parse ?all = (es, True)" by simp
    from read_loop_first [OF d12 this] read_loop_first [OF d1 p] True show ?thesis by simp
  next
    case False
    with p12 have "process_lines parse ?all = (es @ [OnComplete], True)" by simp
    from read_loop_first [OF d12 this] read_loop_first [OF d1 p] False show ?thesis by simp
  qed
qed

lemma sentinel_as_close:
  assumes "concat chunks = [] \<or> last (concat chunks) = CHR 0x0A"
  shows "streamMessage parse (Body (chunks @ [''data: [DONE]\<newline>'']) e) =
         streamMessage parse (Body chunks SourceClosed)"
proof -
  have l: "streamMessage parse (Body (chunks @ [''data: [DONE]\<newline>'']) e) =
        read_loop parse new_TextDecoder [] [concat chunks @ ''data: [DONE]\<newline>''] e"
    using read_loop_concat [of "[]" parse new_TextDecoder "chunks @ [''data: [DONE]\<newline>'']" e]
    by simp
  have r: "streamMessage parse (Body chunks SourceClosed) =
        read_loop parse new_TextDecoder [] [concat chunks] SourceClosed"
    using read_loop_concat [of "[]" parse new_TextDecoder chunks SourceClosed] by simp
  show ?thesis
  proof (cases "concat chunks = []")
    case True
    have "read_loop parse new_TextDecoder [] [[]] SourceClosed = [OnComplete]"
      using read_loop_empty_chunk [of "[]" parse new_TextDecoder "[]" SourceClosed] by simp
    with True l r show ?thesis
      by (simp only: read_loop_sentinel_first append_Nil)
  next
    case False
    with assms obtain bs where "concat chunks = bs @ [CHR 0x0A]"
      by (metis append_butlast_last_id)
    with l r show ?thesis
      by (simp only: read_loop_sentinel_after_newline)
  qed
qed

section \<open>Claims about the stream decoder\<close>

lemma fresh_page_eval:
  "fresh_page =
     \<lparr>currentMaster = js ''tocqueville'', conversations = [(js ''tocqueville'', 0)],
      isStreaming = False, arrays = (\<lambda>a. [])(0 := []), next_ref = Suc 0,
      masterConversations = Missing, storage_full = False, input_value = [],
      send_disabled = False, fullResponse = [], bubble = NoBubble, toasts = [], console = [],
      requests = []\<rparr>"
  by (simp add: fresh_page_def new_ChatPage_def blank_browser_def loadConversations_def
        new_array_def Let_def)

lemma appended_text_append [simp]:
  "appended_text (xs @ ys) = appended_text xs @ appended_text ys"
  by (simp add: appended_text_def)

lemma appended_text_OnComplete [simp]: "appended_text [OnComplete] = []"
  by (simp add: appended_text_def)

lemma sendMessage_cong:
  assumes "streamMessage parse r = streamMessage parse r'"
  shows "sendMessage masters parse r w = sendMessage masters parse r' w"
  unfolding sendMessage_def assms by (rule refl)

text \<open>
  C6. For a fixed sequence of bytes, every way of cutting it into chunks makes
  \<^verbatim>\<open>streamMessage\<close> call its callbacks with the same values in the same order. The cuts
  may fall inside a line or inside the bytes of one character: the decoder keeps the
  unfinished character and \<^verbatim>\<open>buffer\<close> keeps the unfinished line.
\<close>

theorem chunking_invariance:
  "concat chunks = concat chunks' \<Longrightarrow>
     streamMessage parse (Body chunks e) = streamMessage parse (Body chunks' e)"
  using read_loop_concat [of "[]" parse new_TextDecoder chunks e]
    read_loop_concat [of "[]" parse new_TextDecoder chunks' e]
  by simp

theorem chunking_invariance_witness:
  "concat accent_split = concat accent_whole \<and>
   streamMessage example_parse (Body accent_split SourceClosed) =
   streamMessage example_parse (Body accent_whole SourceClosed)"
proof -
  have h: "concat accent_split = concat accent_whole"
    by (simp add: accent_split_def accent_whole_def payload_accent_def)
  from chunking_invariance [OF h, of example_parse SourceClosed] h show ?thesis
    by (rule conjI [rotated])
qed

text \<open>
  C10. Bytes after the last line feed of a body that then closes are never handled: the
  callbacks are called exactly as if those bytes had not been sent, so the rest
  contributes no event and no text, and the last call is still \<^verbatim>\<open>onComplete\<close>.
\<close>

theorem unterminated_remainder_discarded:
  assumes "CHR 0x0A \<notin> set r" and "concat chunks' = concat chunks @ r"
  shows "streamMessage parse (Body chunks' SourceClosed) =
           streamMessage parse (Body chunks SourceClosed) \<and>
         sendMessage masters parse (Body chunks' SourceClosed) w =
           sendMessage masters parse (Body chunks SourceClosed) w \<and>
         last (streamMessage parse (Body chunks' SourceClosed)) = OnComplete"
proof -
  have "streamMessage parse (Body chunks' SourceClosed) =
          read_loop parse new_TextDecoder [] [concat chunks @ r] SourceClosed"
    using read_loop_concat [of "[]" parse new_TextDecoder chunks' SourceClosed] assms(2) by simp
  also have "\<dots> = read_loop parse new_TextDecoder [] [concat chunks] SourceClosed"
    by (rule read_loop_remainder [OF decoder_ok_new assms(1)])
  also have "\<dots> = streamMessage parse (Body chunks SourceClosed)"
    using read_loop_concat [of "[]" parse new_TextDecoder chunks SourceClosed] by simp
  finally have eq: "streamMessage parse (Body chunks' SourceClosed) =
                      streamMessage parse (Body chunks SourceClosed)" .
  moreover have "last (streamMessage parse (Body chunks' SourceClosed)) = OnComplete"
    using streamMessage_closed [of parse chunks'] by auto
  ultimately show ?thesis
    using sendMessage_cong [OF eq] by (simp only: simp_thms)
qed

theorem unterminated_remainder_discarded_witness:
  "CHR 0x0A \<notin> set unterminated_B \<and>
   concat body_A_unterminated_B = concat body_A @ unterminated_B \<and>
   streamMessage example_parse (Body body_A_unterminated_B SourceClosed) =
     streamMessage example_parse (Body body_A SourceClosed) \<and>
   sendMessage MASTERS example_parse (Body body_A_unterminated_B SourceClosed) asking =
     sendMessage MASTERS example_parse (Body body_A SourceClosed) asking \<and>
   last (streamMessage example_parse (Body body_A_unterminated_B SourceClosed)) = OnComplete"
proof -
  have h1: "CHR 0x0A \<notin> set unterminated_B"
    by (simp add: unterminated_B_def payload_B_def)
  have h2: "concat body_A_unterminated_B = concat body_A @ unterminated_B"
    by (simp add: body_A_unterminated_B_def body_A_def unterminated_B_def)
  from unterminated_remainder_discarded [OF h1 h2, of example_parse MASTERS asking] h1 h2
  show ?thesis by blast
qed

text \<open>
  C7. When the body closes, with or without a \<^verbatim>\<open>[DONE]\<close> line before, the turn sent
  from an idle page to a configured master is committed: the promise resolves, the text
  appended so far (empty when nothing was appended, as for a body without chunks)
  becomes the content of an assistant message after the user's message, the page stops
  streaming, shows that text, and raises no toast. A body that ends on a line boundary and then closes ends the turn exactly as
  the same body followed by the \<^verbatim>\<open>[DONE]\<close> line does.
\<close>

theorem closed_without_sentinel_commits:
  assumes "\<not> isStreaming w" and "js_trim (input_value w) \<noteq> []"
    and "currentMaster w \<in> set masters"
  shows "fst (sendMessage masters parse (Body chunks SourceClosed) w) = Returned \<and>
         history (snd (sendMessage masters parse (Body chunks SourceClosed) w)) (currentMaster w) =
           history w (currentMaster w) @
             [\<lparr>role = js ''user'', content = js_trim (input_value w)\<rparr>,
              \<lparr>role = js ''assistant'',
               content = appended_text (streamMessage parse (Body chunks SourceClosed))\<rparr>] \<and>
         \<not> isStreaming (snd (sendMessage masters parse (Body chunks SourceClosed) w)) \<and>
         toasts (snd (sendMessage masters parse (Body chunks SourceClosed) w)) = toasts w \<and>
         bubble (snd (sendMessage masters parse (Body chunks SourceClosed) w)) =
           Shown (appended_text (streamMessage parse (Body chunks SourceClosed))) \<and>
         appended_text (streamMessage parse (Body [] SourceClosed)) = [] \<and>
         ((concat chunks = [] \<or> last (concat chunks) = CHR 0x0A) \<longrightarrow>
            sendMessage masters parse (Body chunks SourceClosed) w =
            sendMessage masters parse (Body (chunks @ [''data: [DONE]\<newline>'']) e) w)"
proof -
  obtain es0 where es0: "streamMessage parse (Body chunks SourceClosed) = es0 @ [OnComplete]"
    and q: "list_all quiet es0"
    using streamMessage_closed [of parse chunks] by auto
  have t: "appended_text (streamMessage parse (Body chunks SourceClosed)) = appended_text es0"
    by (simp only: es0 appended_text_append appended_text_OnComplete append_Nil2)
  note c = sendMessage_commits [OF assms(1,2) es0 q assms(3)]
  have "(concat chunks = [] \<or> last (concat chunks) = CHR 0x0A) \<longrightarrow>
            sendMessage masters parse (Body chunks SourceClosed) w =
            sendMessage masters parse (Body (chunks @ [''data: [DONE]\<newline>'']) e) w"
    using sendMessage_cong [OF sentinel_as_close [of chunks parse e, symmetric]] by blast
  moreover have "appended_text (streamMessage parse (Body [] SourceClosed)) = []"
    by simp
  ultimately show ?thesis
    using c by (simp only: t simp_thms)
qed

theorem closed_without_sentinel_commits_witness:
  "\<not> isStreaming asking \<and> js_trim (input_value asking) \<noteq> [] \<and>
   currentMaster asking \<in> set MASTERS \<and>
   (concat body_A = [] \<or> last (concat body_A) = CHR 0x0A) \<and>
   fst (sendMessage MASTERS example_parse (Body body_A SourceClosed) asking) = Returned \<and>
   history (snd (sendMessage MASTERS example_parse (Body body_A SourceClosed) asking)) (currentMaster asking) =
     history asking (currentMaster asking) @
       [\<lparr>role = js ''user'', content = js_trim (input_value asking)\<rparr>,
        \<lparr>role = js ''assistant'',
         content = appended_text (streamMessage example_parse (Body body_A SourceClosed))\<rparr>] \<and>
   sendMessage MASTERS example_parse (Body body_A SourceClosed) asking =
     sendMessage MASTERS example_parse (Body (body_A @ [''data: [DONE]\<newline>'']) (ReadFailed [])) asking"
proof -
  have h1: "\<not> isStreaming asking"
    by (simp add: asking_def fresh_page_eval)
  have h2: "js_trim (input_value asking) \<noteq> []"
    by (simp add: asking_def fresh_page_eval js_def js_trim_def is_js_whitespace_def)
  have h3: "concat body_A = [] \<or> last (concat body_A) = CHR 0x0A"
    by (simp add: body_A_def)
  have h4: "currentMaster asking \<in> set MASTERS"
    by (simp add: asking_def fresh_page_eval MASTERS_def)
  from closed_without_sentinel_commits [OF h1 h2 h4, of example_parse body_A "ReadFailed []"]
    h1 h2 h3 h4
  show ?thesis by blast
qed

section \<open>Claims about single lines\<close>

lemma stream_lines_append:
  "\<exists>further. stream_lines (chunks @ afterwards) = stream_lines chunks @ further"
proof -
  obtain td1 t1 where d1: "TextDecoder_decode new_TextDecoder (concat chunks) = (td1, t1)"
    by (cases "TextDecoder_decode new_TextDecoder (concat chunks)")
  obtain td2 t2 where d2: "TextDecoder_decode td1 (concat afterwards) = (td2, t2)"
    by (cases "TextDecoder_decode td1 (concat afterwards)")
  have "TextDecoder_decode new_TextDecoder (concat (chunks @ afterwards)) = (td2, t1 @ t2)"
    by (simp add: TextDecoder_decode_append d1 d2)
  then have "stream_lines (chunks @ afterwards) =
               stream_lines chunks @ butlast (split_nl (last (split_nl t1) @ t2))"
    using d1 by (simp only: stream_lines_def butlast_split_nl_append [of t1 t2] snd_conv)
  then show ?thesis by blast
qed

lemma startsWith_data_trim: "startsWith line (js ''data: '') \<Longrightarrow> js_trim line \<noteq> []"
proof -
  assume "startsWith line (js ''data: '')"
  then obtain rest where l: "line = 100 # rest"
    by (cases line) (auto simp: startsWith_def js_def)
  have nw: "\<not> is_js_whitespace 100"
    by (simp add: is_js_whitespace_def)
  then have "dropWhile is_js_whitespace (rev rest @ [100]) \<noteq> []"
    by (simp add: dropWhile_append)
  with l nw show ?thesis
    by (simp add: js_trim_def)
qed

lemma handle_line_other:
  "\<not> startsWith line (js ''data: '') \<Longrightarrow> handle_line parse line = ([], False)"
  by (simp add: handle_line_def)

lemma handle_line_done: "is_done_line line \<Longrightarrow> handle_line parse line = ([OnComplete], True)"
  by (simp add: handle_line_def is_done_line_def startsWith_data_trim)

lemma handle_line_not_done:
  "\<not> is_done_line line \<Longrightarrow>
     snd (handle_line parse line) = False \<and>
     appended_text (fst (handle_line parse line)) = delta_fragment parse line"
  by (auto simp: handle_line_def is_done_line_def delta_fragment_def appended_text_def Let_def
        startsWith_data_trim
      split: option.splits sum.splits)

lemma process_lines_done:
  assumes "is_done_line line" and "\<not> snd (process_lines parse earlier)"
  shows "process_lines parse (earlier @ line # later) =
           (fst (process_lines parse earlier) @ [OnComplete], True)"
proof -
  obtain es where "process_lines parse earlier = (es, False)"
    using assms(2) by (cases "process_lines parse earlier") auto
  then show ?thesis
    by (simp add: process_lines_append handle_line_done [OF assms(1)])
qed

lemma streamMessage_done:
  assumes d: "is_done_line line" and n: "\<not> snd (process_lines parse earlier)"
    and l: "stream_lines chunks = earlier @ line # later"
  shows "streamMessage parse (Body (chunks @ afterwards) e) =
          fst (process_lines parse earlier) @ [OnComplete]"
proof -
  obtain further where "stream_lines (chunks @ afterwards) = stream_lines chunks @ further"
    using stream_lines_append [of chunks afterwards] by auto
  then have "stream_lines (chunks @ afterwards) = earlier @ line # (later @ further)"
    by (simp only: l append_assoc append_Cons)
  then have p: "process_lines parse (stream_lines (chunks @ afterwards)) =
               (fst (process_lines parse earlier) @ [OnComplete], True)"
    by (simp only: process_lines_done [OF d n, of "later @ further"])
  show ?thesis
    unfolding streamMessage_lines p by simp
qed

lemma ascii_text:
  "\<forall>b\<in>set bs. (of_char b :: nat) \<le> 0x7F \<Longrightarrow> bs \<noteq> [] \<Longrightarrow>
     snd (TextDecoder_decode new_TextDecoder bs) = js bs"
  by (rule TextDecoder_decode_ascii) (simp_all add: new_TextDecoder_def)

lemma example_lines_done:
  "stream_lines body_done_in_middle = [line_A] @ line_done # [line_B]"
proof -
  have "snd (TextDecoder_decode new_TextDecoder (concat body_done_in_middle)) =
          js (concat body_done_in_middle)"
    by (rule ascii_text) (simp_all add: body_done_in_middle_def payload_A_def payload_B_def)
  then show ?thesis
    by (simp add: stream_lines_def body_done_in_middle_def payload_A_def payload_B_def
          line_A_def line_B_def line_done_def js_def split_nl_def)
qed

lemma example_earlier:
  "process_lines example_parse [line_A] = ([OnChunk (JStr (js ''A''))], False)"
  by (simp add: line_defs payload_defs line_A_def)

text \<open>
  C2. A line that does not start with \<^verbatim>\<open>data: \<close> (an empty line too) makes the decoder
  call nothing, and the loop goes on. A line whose payload, trimmed, is \<^verbatim>\<open>[DONE]\<close> makes
  it call \<^verbatim>\<open>onComplete\<close> and return: whatever the lines before it produced is followed by
  that one call, and neither the lines after it, nor later chunks, nor the way the body
  ends add anything.
\<close>

theorem data_lines_and_sentinel:
  "(\<not> startsWith other (js ''data: '') \<longrightarrow> handle_line parse other = ([], False)) \<and>
   (is_done_line line \<longrightarrow>
      handle_line parse line = ([OnComplete], True) \<and>
      (\<not> snd (process_lines parse earlier) \<longrightarrow>
         process_lines parse (earlier @ line # later) =
           (fst (process_lines parse earlier) @ [OnComplete], True) \<and>
         (stream_lines chunks = earlier @ line # later \<longrightarrow>
            streamMessage parse (Body (chunks @ afterwards) e) =
              fst (process_lines parse earlier) @ [OnComplete])))"
proof (intro conjI impI)
  assume "\<not> startsWith other (js ''data: '')"
  then show "handle_line parse other = ([], False)"
    by (rule handle_line_other)
next
  assume "is_done_line line"
  then show "handle_line parse line = ([OnComplete], True)"
    by (rule handle_line_done)
next
  assume "is_done_line line" and "\<not> snd (process_lines parse earlier)"
  then show "process_lines parse (earlier @ line # later) =
           (fst (process_lines parse earlier) @ [OnComplete], True)"
    by (rule process_lines_done)
next
  assume "is_done_line line" and "\<not> snd (process_lines parse earlier)"
    and "stream_lines chunks = earlier @ line # later"
  then show "streamMessage parse (Body (chunks @ afterwards) e) =
              fst (process_lines parse earlier) @ [OnComplete]"
    by (rule streamMessage_done)
qed

theorem data_lines_and_sentinel_witness:
  "\<not> startsWith (js ''event: ping'') (js ''data: '') \<and>
   handle_line example_parse (js ''event: ping'') = ([], False) \<and>
   is_done_line line_done \<and>
   handle_line example_parse line_done = ([OnComplete], True) \<and>
   \<not> snd (process_lines example_parse [line_A]) \<and>
   process_lines example_parse ([line_A] @ line_done # [line_B]) =
     (fst (process_lines example_parse [line_A]) @ [OnComplete], True) \<and>
   stream_lines body_done_in_middle = [line_A] @ line_done # [line_B] \<and>
   streamMessage example_parse (Body (body_done_in_middle @ body_A) (ReadFailed [])) =
     fst (process_lines example_parse [line_A]) @ [OnComplete]"
proof -
  have h1: "\<not> startsWith (js ''event: ping'') (js ''data: '')"
    by (simp add: startsWith_def js_def)
  have h2: "is_done_line line_done"
    by (simp add: line_done_def is_done_line_def startsWith_def js_def js_trim_def
          is_js_whitespace_def)
  have h3: "\<not> snd (process_lines example_parse [line_A])"
    by (simp only: example_earlier snd_conv simp_thms)
  note h4 = example_lines_done
  from data_lines_and_sentinel [of "js ''event: ping''" example_parse line_done
      "[line_A]" "[line_B]" body_done_in_middle body_A "ReadFailed []"]
    h1 h2 h3 h4
  show ?thesis by blast
qed

section \<open>Claims about the accumulated text\<close>

lemma appended_text_process_lines:
  "appended_text (fst (process_lines parse ls)) =
     concat (map (delta_fragment parse) (takeWhile (\<lambda>l. \<not> is_done_line l) ls))"
proof (induction ls)
  case Nil
  then show ?case by (simp add: appended_text_def)
next
  case (Cons l ls)
  show ?case
  proof (cases "is_done_line l")
    case True
    then show ?thesis
      by (simp add: handle_line_done)
  next
    case False
    obtain es where h: "handle_line parse l = (es, False)" and f: "appended_text es = delta_fragment parse l"
      using handle_line_not_done [OF False, of parse] by (cases "handle_line parse l") auto
    obtain e2 r2 where p: "process_lines parse ls = (e2, r2)"
      by (cases "process_lines parse ls")
    with False Cons.IH h f show ?thesis
      by simp
  qed
qed

lemma appended_text_end: "appended_text (read_loop parse td buffer [] e) = []"
  by (cases e) (simp_all add: appended_text_def)

lemma appended_text_streamMessage:
  "appended_text (streamMessage parse (Body chunks e)) =
     concat (map (delta_fragment parse) (takeWhile (\<lambda>l. \<not> is_done_line l) (stream_lines chunks)))"
proof -
  obtain es returned where p: "process_lines parse (stream_lines chunks) = (es, returned)"
    by (cases "process_lines parse (stream_lines chunks)")
  have "appended_text (streamMessage parse (Body chunks e)) = appended_text es"
    unfolding streamMessage_lines p by (simp add: appended_text_end)
  with appended_text_process_lines [of parse "stream_lines chunks"] p show ?thesis
    by simp
qed

lemma handle_line_malformed:
  assumes "startsWith line (js ''data: '')" and "js_trim (drop 6 line) \<noteq> js ''[DONE]''"
    and "parse (js_trim (drop 6 line)) = None"
  shows "handle_line parse line = ([ConsoleError ErrorParsingChunk], False)"
  using assms by (simp add: handle_line_def startsWith_data_trim)

lemma process_lines_malformed:
  assumes "handle_line parse line = ([ConsoleError ErrorParsingChunk], False)"
  shows "appended_text (fst (process_lines parse (earlier @ line # later))) =
           appended_text (fst (process_lines parse (earlier @ later)))"
    and "snd (process_lines parse (earlier @ line # later)) =
           snd (process_lines parse (earlier @ later))"
  using assms
  by (simp_all add: process_lines_append appended_text_def split: prod.splits)

lemma js_append: "js (a @ b) = js a @ js b"
  by (simp add: js_def)

lemma split_from_line:
  "10 \<notin> set p \<Longrightarrow> split_from q (p @ 10 # rest) = (q @ p) # split_from [] rest"
  by (induction p arbitrary: q) auto

lemma split_nl_line: "10 \<notin> set p \<Longrightarrow> split_nl (p @ 10 # rest) = p # split_nl rest"
  using split_from_line [of p "[]" rest] by (simp add: split_nl_def)

lemma split_nl_empty_line: "split_nl (10 # rest) = [] # split_nl rest"
  by (simp add: split_nl_def)

lemma split_nl_Nil: "split_nl [] = [[]]"
  by (simp add: split_nl_def)

lemma js_trim_id:
  "s \<noteq> [] \<Longrightarrow> \<not> is_js_whitespace (hd s) \<Longrightarrow> \<not> is_js_whitespace (last s) \<Longrightarrow> js_trim s = s"
proof -
  assume s: "s \<noteq> []" and h: "\<not> is_js_whitespace (hd s)" and l: "\<not> is_js_whitespace (last s)"
  from s h have "dropWhile is_js_whitespace s = s"
    by (cases s) simp_all
  moreover from s l have "dropWhile is_js_whitespace (rev s) = rev s"
    by (induction s rule: rev_induct) simp_all
  ultimately show ?thesis
    by (simp add: js_trim_def)
qed

lemma handle_line_delta:
  assumes "startsWith line (js ''data: '')" and "js_trim (drop 6 line) = p"
    and "p \<noteq> js ''[DONE]''" and "parse p = Some ev"
    and "delta_content ev = Inr (Some (JStr s))"
  shows "handle_line parse line = (if s = [] then [] else [OnChunk (JStr s)], False)"
  using assms by (simp add: handle_line_def startsWith_data_trim)

lemma example_line_facts:
  "startsWith line_empty (js ''data: '')" "js_trim (drop 6 line_empty) = js payload_empty"
  "startsWith line_A (js ''data: '')" "js_trim (drop 6 line_A) = js payload_A"
  "startsWith line_B (js ''data: '')" "js_trim (drop 6 line_B) = js payload_B"
  "js payload_empty \<noteq> js ''[DONE]''" "js payload_A \<noteq> js ''[DONE]''"
  "js payload_B \<noteq> js ''[DONE]''"
  "10 \<notin> set line_empty" "10 \<notin> set line_A" "10 \<notin> set line_B" "10 \<notin> set line_done"
  "10 \<notin> set line_malformed"
  "is_done_line line_done" "\<not> startsWith [] (js ''data: '')"
proof -
  have d: "\<And>bs. drop 6 (js (''data: '' @ bs)) = js bs"
    by (simp add: js_def)
  have t: "js_trim (js payload_empty) = js payload_empty" "js_trim (js payload_A) = js payload_A"
    "js_trim (js payload_B) = js payload_B"
    by (rule js_trim_id; simp add: js_def payload_defs is_js_whitespace_def)+
  show "startsWith line_empty (js ''data: '')" "startsWith line_A (js ''data: '')"
    "startsWith line_B (js ''data: '')" "\<not> startsWith [] (js ''data: '')"
    by (simp_all add: startsWith_def js_def line_empty_def line_A_def line_B_def)
  show "js_trim (drop 6 line_empty) = js payload_empty" "js_trim (drop 6 line_A) = js payload_A"
    "js_trim (drop 6 line_B) = js payload_B"
    by (simp_all only: line_empty_def line_A_def line_B_def d t)
  show "js payload_empty \<noteq> js ''[DONE]''" "js payload_A \<noteq> js ''[DONE]''"
    "js payload_B \<noteq> js ''[DONE]''"
    by (simp_all add: js_def payload_defs)
  show "10 \<notin> set line_empty" "10 \<notin> set line_A" "10 \<notin> set line_B" "10 \<notin> set line_done"
    "10 \<notin> set line_malformed"
    by (simp_all add: js_def payload_defs line_empty_def line_A_def line_B_def line_done_def
          line_malformed_def)
  show "is_done_line line_done"
    by (simp add: line_done_def is_done_line_def startsWith_def js_def js_trim_def
          is_js_whitespace_def)
qed

lemma wire_lines:
  "stream_lines [example_wire] = [line_empty, [], line_A, [], line_B, [], line_done, []]"
proof -
  have "snd (TextDecoder_decode new_TextDecoder example_wire) = js example_wire"
    by (rule ascii_text) (simp_all add: example_wire_def payload_defs)
  moreover have "js example_wire =
      line_empty @ 10 # [] @ 10 # line_A @ 10 # [] @ 10 # line_B @ 10 # [] @ 10 #
      line_done @ 10 # [] @ 10 # []"
    by (simp add: example_wire_def line_empty_def line_A_def line_B_def line_done_def js_append)
       (simp add: js_def)
  ultimately show ?thesis
    by (simp add: stream_lines_def split_nl_line split_nl_empty_line example_line_facts
          split_nl_Nil)
qed

lemma delta_fragment_delta:
  assumes "startsWith line (js ''data: '')" and "js_trim (drop 6 line) = p"
    and "parse p = Some ev" and "delta_content ev = Inr (Some (JStr s))"
  shows "delta_fragment parse line = s"
  using assms by (simp add: delta_fragment_def)

lemma example_parse_facts:
  "example_parse (js payload_empty) = Some (envelope [(js ''role'', JStr (js ''assistant''))] [] JNull)"
  "example_parse (js payload_A) = Some (envelope [] (js ''A'') JNull)"
  "example_parse (js payload_B) = Some (envelope [] (js ''B'') (JStr (js ''stop'')))"
  "delta_content (envelope [] s reason) = Inr (Some (JStr s))"
  "delta_content (envelope [(js ''role'', r)] s reason) = Inr (Some (JStr s))"
  unfolding example_parse_def
  by (simp_all add: js_def payload_empty_def payload_A_def payload_B_def envelope_def
        delta_content_def)

lemma asking_facts:
  "\<not> isStreaming asking" "currentMaster asking = js ''tocqueville''"
  "js_trim (input_value asking) = js ''Q''" "js ''Q'' \<noteq> []"
  "history asking (js ''tocqueville'') = []"
  by (simp_all add: asking_def fresh_page_eval history_def js_def js_trim_def is_js_whitespace_def)

lemma asking_configured: "currentMaster asking \<in> set MASTERS"
  by (simp add: asking_def fresh_page_eval MASTERS_def)

lemma malformed_lines:
  "stream_lines body_malformed_between = [line_A, line_malformed, line_B]"
proof -
  have "snd (TextDecoder_decode new_TextDecoder (concat body_malformed_between)) =
          js (concat body_malformed_between)"
    by (rule ascii_text) (simp_all add: body_malformed_between_def payload_defs)
  moreover have "js (concat body_malformed_between) =
      line_A @ 10 # line_malformed @ 10 # line_B @ 10 # []"
    by (simp add: body_malformed_between_def line_A_def line_B_def line_malformed_def js_append)
       (simp add: js_def)
  ultimately show ?thesis
    by (simp add: stream_lines_def split_nl_line example_line_facts split_nl_Nil)
qed

lemma malformed_facts:
  "startsWith line_malformed (js ''data: '')"
  "js_trim (drop 6 line_malformed) \<noteq> js ''[DONE]''"
  "example_parse (js_trim (drop 6 line_malformed)) = None"
  "\<not> is_done_line line_malformed" "\<not> is_done_line line_A" "\<not> is_done_line line_B"
proof -
  have t: "js_trim (drop 6 line_malformed) = js ''{oops''"
    by (simp add: line_malformed_def js_def js_trim_def is_js_whitespace_def)
  show "startsWith line_malformed (js ''data: '')"
    by (simp add: line_malformed_def js_def startsWith_def)
  show "js_trim (drop 6 line_malformed) \<noteq> js ''[DONE]''"
    unfolding t by (simp add: js_def)
  show "example_parse (js_trim (drop 6 line_malformed)) = None"
    unfolding t example_parse_def by (simp add: js_def payload_defs)
  show "\<not> is_done_line line_malformed"
    unfolding is_done_line_def t by (simp add: js_def)
  show "\<not> is_done_line line_A" "\<not> is_done_line line_B"
    unfolding is_done_line_def example_line_facts by (simp_all add: example_line_facts)
qed

text \<open>
  C5. A \<^verbatim>\<open>data: \<close> line whose payload \<^verbatim>\<open>JSON.parse\<close> rejects is logged and passed over:
  the loop goes on, and with that line or without it the lines around it append the same
  text and end the turn at the same place. For every body, the text appended is the
  concatenation, in order of arrival, of the delta fragments of the lines before the
  terminal line, where a malformed line's fragment is empty; that text is what a turn
  sent from an idle page to a configured master commits when the body closes.
\<close>

theorem malformed_payload_dropped:
  "(startsWith line (js ''data: '') \<and> js_trim (drop 6 line) \<noteq> js ''[DONE]'' \<and>
    parse (js_trim (drop 6 line)) = None \<longrightarrow>
      handle_line parse line = ([ConsoleError ErrorParsingChunk], False) \<and>
      delta_fragment parse line = [] \<and>
      appended_text (fst (process_lines parse (earlier @ line # later))) =
        appended_text (fst (process_lines parse (earlier @ later))) \<and>
      snd (process_lines parse (earlier @ line # later)) =
        snd (process_lines parse (earlier @ later))) \<and>
   appended_text (streamMessage parse (Body chunks e)) =
     concat (map (delta_fragment parse)
       (takeWhile (\<lambda>l. \<not> is_done_line l) (stream_lines chunks))) \<and>
   (\<not> isStreaming w \<and> js_trim (input_value w) \<noteq> [] \<and>
    currentMaster w \<in> set masters \<longrightarrow>
      history (snd (sendMessage masters parse (Body chunks SourceClosed) w)) (currentMaster w) =
        history w (currentMaster w) @
          [\<lparr>role = js ''user'', content = js_trim (input_value w)\<rparr>,
           \<lparr>role = js ''assistant'',
            content = concat (map (delta_fragment parse)
              (takeWhile (\<lambda>l. \<not> is_done_line l) (stream_lines chunks)))\<rparr>])"
proof (intro conjI impI)
  assume a: "startsWith line (js ''data: '') \<and> js_trim (drop 6 line) \<noteq> js ''[DONE]'' \<and>
    parse (js_trim (drop 6 line)) = None"
  then show h: "handle_line parse line = ([ConsoleError ErrorParsingChunk], False)"
    by (simp add: handle_line_malformed)
  from a show "delta_fragment parse line = []"
    by (simp add: delta_fragment_def)
  from h show "appended_text (fst (process_lines parse (earlier @ line # later))) =
        appended_text (fst (process_lines parse (earlier @ later)))"
    by (rule process_lines_malformed)
  from h show "snd (process_lines parse (earlier @ line # later)) =
        snd (process_lines parse (earlier @ later))"
    by (rule process_lines_malformed)
next
  show "appended_text (streamMessage parse (Body chunks e)) =
     concat (map (delta_fragment parse)
       (takeWhile (\<lambda>l. \<not> is_done_line l) (stream_lines chunks)))"
    by (rule appended_text_streamMessage)
next
  assume a: "\<not> isStreaming w \<and> js_trim (input_value w) \<noteq> [] \<and>
    currentMaster w \<in> set masters"
  obtain es0 where es0: "streamMessage parse (Body chunks SourceClosed) = es0 @ [OnComplete]"
    and q: "list_all quiet es0"
    using streamMessage_closed [of parse chunks] by auto
  have "appended_text es0 = appended_text (streamMessage parse (Body chunks SourceClosed))"
    by (simp only: es0 appended_text_append appended_text_OnComplete append_Nil2)
  then have t: "appended_text es0 = concat (map (delta_fragment parse)
              (takeWhile (\<lambda>l. \<not> is_done_line l) (stream_lines chunks)))"
    by (simp only: appended_text_streamMessage)
  from a have i: "\<not> isStreaming w" and n: "js_trim (input_value w) \<noteq> []"
    and c: "currentMaster w \<in> set masters" by simp_all
  from sendMessage_commits(2) [OF i n es0 q c]
  show "history (snd (sendMessage masters parse (Body chunks SourceClosed) w)) (currentMaster w) =
        history w (currentMaster w) @
          [\<lparr>role = js ''user'', content = js_trim (input_value w)\<rparr>,
           \<lparr>role = js ''assistant'',
            content = concat (map (delta_fragment parse)
              (takeWhile (\<lambda>l. \<not> is_done_line l) (stream_lines chunks)))\<rparr>]"
    by (simp only: t)
qed

theorem malformed_payload_dropped_witness:
  "startsWith line_malformed (js ''data: '') \<and>
   js_trim (drop 6 line_malformed) \<noteq> js ''[DONE]'' \<and>
   example_parse (js_trim (drop 6 line_malformed)) = None \<and>
   handle_line example_parse line_malformed = ([ConsoleError ErrorParsingChunk], False) \<and>
   appended_text (fst (process_lines example_parse ([line_A] @ line_malformed # [line_B]))) =
     appended_text (fst (process_lines example_parse ([line_A] @ [line_B]))) \<and>
   snd (process_lines example_parse ([line_A] @ line_malformed # [line_B])) =
     snd (process_lines example_parse ([line_A] @ [line_B])) \<and>
   \<not> isStreaming asking \<and> js_trim (input_value asking) \<noteq> [] \<and>
   currentMaster asking \<in> set MASTERS \<and>
   stream_lines body_malformed_between = [line_A, line_malformed, line_B] \<and>
   history (snd (sendMessage MASTERS example_parse (Body body_malformed_between SourceClosed) asking))
       (currentMaster asking) =
     [\<lparr>role = js ''user'', content = js ''Q''\<rparr>,
      \<lparr>role = js ''assistant'', content = js ''AB''\<rparr>]"
proof -
  note m = malformed_facts
  note a = asking_facts
  note p = example_parse_facts
  note f = example_line_facts
  have n: "js_trim (input_value asking) \<noteq> []"
    by (simp only: a simp_thms)
  note inst = malformed_payload_dropped [of line_malformed example_parse "[line_A]" "[line_B]"
      body_malformed_between SourceClosed asking MASTERS]
  have fA: "delta_fragment example_parse line_A = js ''A''"
    by (rule delta_fragment_delta [of line_A "js payload_A" example_parse _ "js ''A''",
          OF f(3) f(4) p(2) p(4)])
  have fB: "delta_fragment example_parse line_B = js ''B''"
    by (rule delta_fragment_delta [of line_B "js payload_B" example_parse _ "js ''B''",
          OF f(5) f(6) p(3) p(4)])
  have fm: "delta_fragment example_parse line_malformed = []"
    using inst m(1,2,3) by blast
  have t: "concat (map (delta_fragment example_parse)
              (takeWhile (\<lambda>l. \<not> is_done_line l) (stream_lines body_malformed_between))) = js ''AB''"
    unfolding malformed_lines by (simp add: m fA fB fm) (simp add: js_def)
  note c = asking_configured
  from inst a(1) n c
  have "history (snd (sendMessage MASTERS example_parse (Body body_malformed_between SourceClosed) asking))
       (currentMaster asking) =
     history asking (currentMaster asking) @
       [\<lparr>role = js ''user'', content = js_trim (input_value asking)\<rparr>,
        \<lparr>role = js ''assistant'', content = js ''AB''\<rparr>]"
    unfolding t by blast
  then have h: "history (snd (sendMessage MASTERS example_parse (Body body_malformed_between SourceClosed) asking))
       (currentMaster asking) =
     [\<lparr>role = js ''user'', content = js ''Q''\<rparr>,
      \<lparr>role = js ''assistant'', content = js ''AB''\<rparr>]"
    by (simp only: a append_Nil)
  from inst m(1,2,3) a(1) n c malformed_lines h show ?thesis by blast
qed

section \<open>The scenario of the interface description\<close>

text \<open>
  C1. Persona \<^verbatim>\<open>tocqueville\<close>, configured and current, a message typed, and a response
  whose bytes are the three delta events with contents \<^verbatim>\<open>""\<close>, \<^verbatim>\<open>"A"\<close> and \<^verbatim>\<open>"B"\<close>
  followed by \<^verbatim>\<open>[DONE]\<close>, cut into chunks in any way: the persona's history grows by
  exactly two messages, the user's and then the assistant's, whose content is \<^verbatim>\<open>AB\<close>.
\<close>

theorem example_scenario:
  assumes "parse (js payload_empty) = Some e0" and "delta_content e0 = Inr (Some (JStr []))"
    and "parse (js payload_A) = Some eA" and "delta_content eA = Inr (Some (JStr (js ''A'')))"
    and "parse (js payload_B) = Some eB" and "delta_content eB = Inr (Some (JStr (js ''B'')))"
    and "concat chunks = example_wire"
    and "\<not> isStreaming w" and "currentMaster w = js ''tocqueville''"
    and "js_trim (input_value w) \<noteq> []"
    and "js ''tocqueville'' \<in> set masters"
  shows "history (snd (sendMessage masters parse (Body chunks e) w)) (js ''tocqueville'') =
           history w (js ''tocqueville'') @
             [\<lparr>role = js ''user'', content = js_trim (input_value w)\<rparr>,
              \<lparr>role = js ''assistant'', content = js ''AB''\<rparr>] \<and>
         length (history (snd (sendMessage masters parse (Body chunks e) w)) (js ''tocqueville'')) =
           length (history w (js ''tocqueville'')) + 2"
proof -
  note f = example_line_facts
  have sl: "stream_lines chunks = [line_empty, [], line_A, [], line_B, [], line_done, []]"
    using wire_lines assms(7) by (simp add: stream_lines_def)
  have h0: "handle_line parse line_empty = ([], False)"
    using handle_line_delta [of line_empty "js payload_empty" parse e0 "[]",
        OF f(1) f(2) f(7) assms(1) assms(2)] by simp
  have hA: "handle_line parse line_A = ([OnChunk (JStr (js ''A''))], False)"
    using handle_line_delta [of line_A "js payload_A" parse eA "js ''A''",
        OF f(3) f(4) f(8) assms(3) assms(4)] by (simp add: js_def)
  have hB: "handle_line parse line_B = ([OnChunk (JStr (js ''B''))], False)"
    using handle_line_delta [of line_B "js payload_B" parse eB "js ''B''",
        OF f(5) f(6) f(9) assms(5) assms(6)] by (simp add: js_def)
  have hd: "handle_line parse line_done = ([OnComplete], True)"
    by (rule handle_line_done [OF f(15)])
  have he: "handle_line parse [] = ([], False)"
    by (rule handle_line_other [OF f(16)])
  have pl: "process_lines parse [line_empty, [], line_A, [], line_B, [], line_done, []] =
              ([OnChunk (JStr (js ''A'')), OnChunk (JStr (js ''B''))] @ [OnComplete], True)"
    by (simp add: h0 hA hB hd he)
  have sm: "streamMessage parse (Body chunks e) =
              [OnChunk (JStr (js ''A'')), OnChunk (JStr (js ''B''))] @ [OnComplete]"
    unfolding streamMessage_lines sl pl by simp
  have q: "list_all quiet [OnChunk (JStr (js ''A'')), OnChunk (JStr (js ''B''))]"
    by simp
  have at: "appended_text [OnChunk (JStr (js ''A'')), OnChunk (JStr (js ''B''))] = js ''AB''"
    by (simp add: appended_text_def js_def)
  have cm: "currentMaster w \<in> set masters"
    by (simp only: assms(9) assms(11))
  from sendMessage_commits(2) [OF assms(8) assms(10) sm q cm]
  have "history (snd (sendMessage masters parse (Body chunks e) w)) (js ''tocqueville'') =
           history w (js ''tocqueville'') @
             [\<lparr>role = js ''user'', content = js_trim (input_value w)\<rparr>,
              \<lparr>role = js ''assistant'', content = js ''AB''\<rparr>]"
    by (simp only: at assms(9))
  then show ?thesis by simp
qed

theorem example_scenario_witness:
  "example_parse (js payload_empty) =
     Some (envelope [(js ''role'', JStr (js ''assistant''))] [] JNull) \<and>
   delta_content (envelope [(js ''role'', JStr (js ''assistant''))] [] JNull) =
     Inr (Some (JStr [])) \<and>
   example_parse (js payload_A) = Some (envelope [] (js ''A'') JNull) \<and>
   delta_content (envelope [] (js ''A'') JNull) = Inr (Some (JStr (js ''A''))) \<and>
   example_parse (js payload_B) = Some (envelope [] (js ''B'') (JStr (js ''stop''))) \<and>
   delta_content (envelope [] (js ''B'') (JStr (js ''stop''))) = Inr (Some (JStr (js ''B''))) \<and>
   concat scenario_chunks = example_wire \<and>
   \<not> isStreaming asking \<and> currentMaster asking = js ''tocqueville'' \<and>
   js_trim (input_value asking) \<noteq> [] \<and> js ''tocqueville'' \<in> set MASTERS \<and>
   history (snd (sendMessage MASTERS example_parse (Body scenario_chunks SourceClosed) asking))
       (js ''tocqueville'') =
     [\<lparr>role = js ''user'', content = js ''Q''\<rparr>,
      \<lparr>role = js ''assistant'', content = js ''AB''\<rparr>]"
proof -
  note p = example_parse_facts
  note a = asking_facts
  have c: "concat scenario_chunks = example_wire"
    by (simp add: scenario_chunks_def)
  have n: "js_trim (input_value asking) \<noteq> []"
    by (simp only: a simp_thms)
  have k: "js ''tocqueville'' \<in> set MASTERS"
    by (simp add: MASTERS_def)
  from example_scenario [of example_parse _ _ _ scenario_chunks asking MASTERS SourceClosed,
      OF p(1) p(5) p(2) p(4) p(3) p(4) c a(1) a(2) n k]
  have "history (snd (sendMessage MASTERS example_parse (Body scenario_chunks SourceClosed) asking))
       (js ''tocqueville'') =
     [\<lparr>role = js ''user'', content = js ''Q''\<rparr>,
      \<lparr>role = js ''assistant'', content = js ''AB''\<rparr>]"
    by (simp only: a append_Nil)
  with p(1,2,3) p(5) [of "JStr (js ''assistant'')" "[]" JNull] p(4) [of "js ''A''" JNull]
    p(4) [of "js ''B''" "JStr (js ''stop'')"] a(1,2) c n k
  show ?thesis by blast
qed

section \<open>Claims about the conversation store\<close>

lemma read_current_history: "read_current w = history w (currentMaster w)"
  by (simp add: read_current_def getCurrentMessages_def history_def new_array_def
        split: option.splits)

lemma append_all_current:
  "currentMaster (foldl (\<lambda>w m. addMessageToConversation (role m) (content m) w) w ms) =
     currentMaster w"
  by (induction ms rule: rev_induct) simp_all

lemma message_eta: "\<lparr>role = role (m :: message), content = content m\<rparr> = m"
  by simp

lemma history_append_all:
  "history (foldl (\<lambda>w m. addMessageToConversation (role m) (content m) w) w ms)
       (currentMaster w) =
     history w (currentMaster w) @ ms"
proof (induction ms rule: rev_induct)
  case Nil
  then show ?case by simp
next
  case (snoc m ms)
  let ?w = "foldl (\<lambda>w m. addMessageToConversation (role m) (content m) w) w ms"
  have "history (addMessageToConversation (role m) (content m) ?w) (currentMaster ?w) =
          history ?w (currentMaster ?w) @ [m]"
    by (simp only: history_add_current message_eta)
  with snoc show ?case
    by (simp add: append_all_current)
qed

lemma history_clear_current: "history (clearConversation_confirmed w) (currentMaster w) = []"
  by (simp add: clearConversation_confirmed_def saveConversations_def new_array_def history_def
        map_of_set_prop Let_def)

lemma history_clear_other:
  assumes "wf_state w" and "q \<noteq> currentMaster w"
  shows "history (clearConversation_confirmed w) q = history w q"
proof -
  have "\<And>b. map_of (conversations w) q = Some b \<Longrightarrow> b \<noteq> next_ref w"
    using assms(1) map_of_below [of "next_ref w" "conversations w" q]
    by (auto simp: wf_state_def)
  with assms(2) show ?thesis
    by (auto simp: clearConversation_confirmed_def saveConversations_def new_array_def
          history_def map_of_set_prop Let_def split: option.splits)
qed

lemma currentMaster_clear:
  "currentMaster (clearConversation_confirmed w) = currentMaster w"
  by (simp add: clearConversation_confirmed_def saveConversations_def new_array_def Let_def)

lemma clearConversation_yes:
  "currentMaster w \<in> set masters \<Longrightarrow>
     clearConversation masters True w = (Returned, clearConversation_confirmed w)"
  by (simp add: clearConversation_def)

lemma clearConversation_other:
  assumes "wf_state w" and "q \<noteq> currentMaster w"
  shows "history (snd (clearConversation masters c w)) q = history w q"
  using history_clear_other [OF assms] by (simp add: clearConversation_def)

lemma asked_eval:
  "asked =
     \<lparr>currentMaster = js ''tocqueville'', conversations = [(js ''tocqueville'', 0)],
      isStreaming = False,
      arrays = (\<lambda>a. [])(0 := [\<lparr>role = js ''user'', content = js ''Q''\<rparr>]),
      next_ref = Suc 0,
      masterConversations =
        Snapshot [(js ''tocqueville'', [\<lparr>role = js ''user'', content = js ''Q''\<rparr>])],
      storage_full = False, input_value = [],
      send_disabled = False, fullResponse = [], bubble = NoBubble, toasts = [], console = [],
      requests = []\<rparr>"
  by (simp add: asked_def fresh_page_eval addMessageToConversation_def saveConversations_def
        Let_def)

lemma weber_page_eval:
  "weber_page = asked\<lparr>currentMaster := js ''weber'', toasts := [ToastSwitched (js ''weber'')]\<rparr>"
  by (simp add: weber_page_def switchMaster_def asked_eval two_masters_def MASTERS_def)

lemma weber_facts:
  "wf_state weber_page" "map_of (conversations weber_page) (currentMaster weber_page) = None"
  "currentMaster weber_page = js ''weber''" "js ''tocqueville'' \<noteq> js ''weber''"
  "history weber_page (js ''tocqueville'') = [\<lparr>role = js ''user'', content = js ''Q''\<rparr>]"
  "history weber_page (js ''weber'') = []"
  by (simp_all add: weber_page_eval asked_eval wf_state_def history_def) (simp_all add: js_def)

lemma weber_configured:
  "currentMaster weber_page \<in> set two_masters" "currentMaster weber_asked \<in> set two_masters"
  by (simp_all add: weber_asked_def weber_facts two_masters_def)

lemma weber_asked_facts:
  "wf_state weber_asked" "currentMaster weber_asked = js ''weber''"
  "history weber_asked (js ''weber'') = [\<lparr>role = js ''user'', content = js ''W''\<rparr>]"
  "history weber_asked (js ''tocqueville'') = [\<lparr>role = js ''user'', content = js ''Q''\<rparr>]"
proof -
  show "wf_state weber_asked"
    unfolding weber_asked_def by (rule wf_state_add [OF weber_facts(1)])
  show "currentMaster weber_asked = js ''weber''"
    by (simp add: weber_asked_def weber_facts)
  show "history weber_asked (js ''weber'') = [\<lparr>role = js ''user'', content = js ''W''\<rparr>]"
    using history_add_current [of "js ''user''" "js ''W''" weber_page]
    by (simp add: weber_asked_def weber_facts)
  show "history weber_asked (js ''tocqueville'') = [\<lparr>role = js ''user'', content = js ''Q''\<rparr>]"
    using history_add_other [OF weber_facts(1), of "js ''tocqueville''" "js ''user''" "js ''W''"]
    by (simp add: weber_asked_def weber_facts)
qed

text \<open>
  C3. For the current persona: after appending messages, \<^verbatim>\<open>getCurrentMessages\<close> shows
  the earlier messages followed by the appended ones in the order of appending, hence
  exactly the appended ones when there were none before; after a confirmed
  \<^verbatim>\<open>clearConversation\<close> of a configured persona it shows none, and every other
  persona's messages are what they were; and for a persona without an entry it shows
  none.
\<close>

theorem history_append_clear_unseen:
  "read_current (foldl (\<lambda>w m. addMessageToConversation (role m) (content m) w) w ms) =
     history w (currentMaster w) @ ms \<and>
   (history w (currentMaster w) = [] \<longrightarrow>
      read_current (foldl (\<lambda>w m. addMessageToConversation (role m) (content m) w) w ms) = ms) \<and>
   (currentMaster w \<in> set masters \<longrightarrow>
      fst (clearConversation masters True w) = Returned \<and>
      read_current (snd (clearConversation masters True w)) = []) \<and>
   (wf_state w \<and> q \<noteq> currentMaster w \<longrightarrow>
      history (snd (clearConversation masters True w)) q = history w q) \<and>
   (map_of (conversations w) (currentMaster w) = None \<longrightarrow> read_current w = [])"
proof -
  have a: "read_current (foldl (\<lambda>w m. addMessageToConversation (role m) (content m) w) w ms) =
     history w (currentMaster w) @ ms"
    by (simp only: read_current_history append_all_current history_append_all)
  have c: "read_current (clearConversation_confirmed w) = []"
    by (simp only: read_current_history currentMaster_clear history_clear_current)
  have u: "map_of (conversations w) (currentMaster w) = None \<longrightarrow> read_current w = []"
    by (simp add: read_current_history history_def)
  from a c u clearConversation_other [of w q masters True] show ?thesis
    by (simp add: clearConversation_yes)
qed

theorem history_append_clear_unseen_witness:
  "history weber_page (currentMaster weber_page) = [] \<and>
   read_current
     (foldl (\<lambda>w m. addMessageToConversation (role m) (content m) w) weber_page
        [\<lparr>role = js ''user'', content = js ''W''\<rparr>,
         \<lparr>role = js ''assistant'', content = js ''AB''\<rparr>]) =
     [\<lparr>role = js ''user'', content = js ''W''\<rparr>,
      \<lparr>role = js ''assistant'', content = js ''AB''\<rparr>] \<and>
   wf_state weber_asked \<and> js ''tocqueville'' \<noteq> currentMaster weber_asked \<and>
   currentMaster weber_asked \<in> set two_masters \<and>
   fst (clearConversation two_masters True weber_asked) = Returned \<and>
   read_current (snd (clearConversation two_masters True weber_asked)) = [] \<and>
   history (snd (clearConversation two_masters True weber_asked)) (js ''tocqueville'') =
     [\<lparr>role = js ''user'', content = js ''Q''\<rparr>] \<and>
   map_of (conversations weber_page) (currentMaster weber_page) = None \<and>
   read_current weber_page = []"
proof -
  note w = weber_facts
  note wa = weber_asked_facts
  have h1: "history weber_page (currentMaster weber_page) = []"
    by (simp only: w)
  have h2: "js ''tocqueville'' \<noteq> currentMaster weber_asked"
    by (simp only: wa w simp_thms)
  from history_append_clear_unseen [of weber_page
      "[\<lparr>role = js ''user'', content = js ''W''\<rparr>, \<lparr>role = js ''assistant'', content = js ''AB''\<rparr>]"]
    h1 w(2)
  have a: "read_current
     (foldl (\<lambda>w m. addMessageToConversation (role m) (content m) w) weber_page
        [\<lparr>role = js ''user'', content = js ''W''\<rparr>,
         \<lparr>role = js ''assistant'', content = js ''AB''\<rparr>]) =
     [\<lparr>role = js ''user'', content = js ''W''\<rparr>,
      \<lparr>role = js ''assistant'', content = js ''AB''\<rparr>]"
    and u: "read_current weber_page = []"
    by blast+
  note k = weber_configured(2)
  from history_append_clear_unseen [of weber_asked "[]" two_masters "js ''tocqueville''"]
    wa(1) h2 k
  have r: "fst (clearConversation two_masters True weber_asked) = Returned"
    and c: "read_current (snd (clearConversation two_masters True weber_asked)) = []"
    and o: "history (snd (clearConversation two_masters True weber_asked)) (js ''tocqueville'') =
       history weber_asked (js ''tocqueville'')"
    by blast+
  from o have o': "history (snd (clearConversation two_masters True weber_asked))
       (js ''tocqueville'') =
     [\<lparr>role = js ''user'', content = js ''Q''\<rparr>]"
    by (simp only: wa)
  from h1 a wa(1) h2 k r c o' w(2) u show ?thesis by blast
qed

lemma asked_facts:
  "wf_state asked" "map_of (conversations asked) (currentMaster asked) = Some 0"
  "getCurrentMessages asked = (0, asked)"
  "arrays asked 0 = [\<lparr>role = js ''user'', content = js ''Q''\<rparr>]"
  "read_current asked = [\<lparr>role = js ''user'', content = js ''Q''\<rparr>]"
  by (simp_all add: asked_eval wf_state_def getCurrentMessages_def read_current_def)

text \<open>
  C8, at a page that holds a conversation. The handler of the settings page removes the
  stored item and nothing else: the page object, which the application keeps for its
  whole life, still shows every message, for every persona. The next message writes the
  whole conversation back into storage. Only a page constructed afterwards, before any
  such write, starts with empty histories.
\<close>

theorem clear_all_keeps_page:
  "read_current (clear_all_conversations True w) = read_current w \<and>
   history (clear_all_conversations True w) p = history w p \<and>
   masterConversations (clear_all_conversations True w) = Missing \<and>
   read_current (clear_all_conversations True asked) =
     [\<lparr>role = js ''user'', content = js ''Q''\<rparr>] \<and>
   masterConversations
     (addMessageToConversation (js ''user'') (js ''R'') (clear_all_conversations True asked)) =
     Snapshot [(js ''tocqueville'',
       [\<lparr>role = js ''user'', content = js ''Q''\<rparr>, \<lparr>role = js ''user'', content = js ''R''\<rparr>])] \<and>
   history (new_ChatPage (clear_all_conversations True w)) p = []"
proof -
  have h: "history (clear_all_conversations True w) p = history w p" for w p
    by (rule history_cong) (simp_all add: clear_all_conversations_def)
  have r: "read_current (clear_all_conversations True w) = read_current w" for w
    by (simp add: read_current_history h) (simp add: clear_all_conversations_def)
  have a: "read_current asked = [\<lparr>role = js ''user'', content = js ''Q''\<rparr>]"
    by (simp add: read_current_history) (simp add: asked_eval history_def)
  have s: "masterConversations
     (addMessageToConversation (js ''user'') (js ''R'') (clear_all_conversations True asked)) =
     Snapshot [(js ''tocqueville'',
       [\<lparr>role = js ''user'', content = js ''Q''\<rparr>, \<lparr>role = js ''user'', content = js ''R''\<rparr>])]"
    by (simp add: clear_all_conversations_def asked_eval addMessageToConversation_def
          saveConversations_def Let_def)
  have n: "history (new_ChatPage (clear_all_conversations True w)) p = []"
    by (simp add: new_ChatPage_def clear_all_conversations_def loadConversations_def
          new_array_def history_def Let_def)
  from h r a s n show ?thesis
    by (simp add: clear_all_conversations_def)
qed

text \<open>
  C9 as stated fails: the array that \<^verbatim>\<open>getCurrentMessages\<close> returned for a persona
  with a conversation holds one message before \<^verbatim>\<open>addMessageToConversation\<close> and two
  after it.
\<close>

theorem returned_history_is_live:
  "arrays (snd (getCurrentMessages asked)) (fst (getCurrentMessages asked)) =
     [\<lparr>role = js ''user'', content = js ''Q''\<rparr>] \<and>
   arrays
     (addMessageToConversation (js ''assistant'') (js ''AB'') (snd (getCurrentMessages asked)))
     (fst (getCurrentMessages asked)) =
     [\<lparr>role = js ''user'', content = js ''Q''\<rparr>,
      \<lparr>role = js ''assistant'', content = js ''AB''\<rparr>] \<and>
   arrays
     (addMessageToConversation (js ''assistant'') (js ''AB'') (snd (getCurrentMessages asked)))
     (fst (getCurrentMessages asked)) \<noteq>
   arrays (snd (getCurrentMessages asked)) (fst (getCurrentMessages asked))"
  by (simp add: asked_facts addMessageToConversation_def saveConversations_def Let_def)

text \<open>
  C9, amended. \<^verbatim>\<open>getCurrentMessages\<close> returns the store's own array when the persona
  has one, so a later \<^verbatim>\<open>addMessageToConversation\<close> shows through it: the sequence
  obtained grows by the new message. A later \<^verbatim>\<open>clearConversation\<close> does not change it,
  since the persona gets a new array; and for a persona without an entry the result is a
  new empty array that later appends leave empty.
\<close>

theorem returned_history_aliasing:
  "wf_state w \<Longrightarrow>
     arrays (snd (clearConversation masters True (snd (getCurrentMessages w))))
       (fst (getCurrentMessages w)) =
       read_current w \<and>
     (map_of (conversations w) (currentMaster w) \<noteq> None \<longrightarrow>
        arrays (addMessageToConversation r c (snd (getCurrentMessages w)))
          (fst (getCurrentMessages w)) =
          read_current w @ [\<lparr>role = r, content = c\<rparr>]) \<and>
     (map_of (conversations w) (currentMaster w) = None \<longrightarrow>
        arrays (addMessageToConversation r c (snd (getCurrentMessages w)))
          (fst (getCurrentMessages w)) = [])"
proof (cases "map_of (conversations w) (currentMaster w)")
  case None
  then show ?thesis
    by (simp add: getCurrentMessages_def read_current_def new_array_def clearConversation_def
          clearConversation_confirmed_def addMessageToConversation_def saveConversations_def
          Let_def)
next
  case (Some a)
  assume "wf_state w"
  then have "a < next_ref w"
    using Some map_of_below [of "next_ref w" "conversations w" "currentMaster w" a]
    by (simp add: wf_state_def)
  with Some show ?thesis
    by (simp add: getCurrentMessages_def read_current_def new_array_def clearConversation_def
          clearConversation_confirmed_def addMessageToConversation_def saveConversations_def
          Let_def)
qed

theorem returned_history_aliasing_witness:
  "wf_state asked \<and> map_of (conversations asked) (currentMaster asked) \<noteq> None \<and>
   arrays (snd (clearConversation MASTERS True (snd (getCurrentMessages asked))))
     (fst (getCurrentMessages asked)) =
     [\<lparr>role = js ''user'', content = js ''Q''\<rparr>] \<and>
   arrays (addMessageToConversation (js ''assistant'') (js ''AB'') (snd (getCurrentMessages asked)))
     (fst (getCurrentMessages asked)) =
     [\<lparr>role = js ''user'', content = js ''Q''\<rparr>] @
     [\<lparr>role = js ''assistant'', content = js ''AB''\<rparr>] \<and>
   wf_state weber_page \<and> map_of (conversations weber_page) (currentMaster weber_page) = None \<and>
   arrays (snd (clearConversation two_masters True (snd (getCurrentMessages weber_page))))
     (fst (getCurrentMessages weber_page)) = [] \<and>
   arrays (addMessageToConversation (js ''user'') (js ''W'') (snd (getCurrentMessages weber_page)))
     (fst (getCurrentMessages weber_page)) = []"
proof -
  note a = asked_facts
  note w = weber_facts
  have n: "map_of (conversations asked) (currentMaster asked) \<noteq> None"
    by (simp add: a)
  have u: "read_current weber_page = []"
    by (simp only: read_current_history w)
  from returned_history_aliasing [OF a(1), of MASTERS "js ''assistant''" "js ''AB''"] n
  have 1: "arrays (snd (clearConversation MASTERS True (snd (getCurrentMessages asked))))
     (fst (getCurrentMessages asked)) =
     [\<lparr>role = js ''user'', content = js ''Q''\<rparr>]"
    and 2: "arrays (addMessageToConversation (js ''assistant'') (js ''AB'') (snd (getCurrentMessages asked)))
     (fst (getCurrentMessages asked)) =
     [\<lparr>role = js ''user'', content = js ''Q''\<rparr>] @
     [\<lparr>role = js ''assistant'', content = js ''AB''\<rparr>]"
    unfolding a(5) by blast+
  from returned_history_aliasing [OF w(1), of two_masters "js ''user''" "js ''W''"] w(2)
  have 3: "arrays (snd (clearConversation two_masters True (snd (getCurrentMessages weber_page))))
     (fst (getCurrentMessages weber_page)) = []"
    and 4: "arrays (addMessageToConversation (js ''user'') (js ''W'') (snd (getCurrentMessages weber_page)))
     (fst (getCurrentMessages weber_page)) = []"
    unfolding u by blast+
  from a(1) n 1 2 w(1) w(2) 3 4 show ?thesis by blast
qed

section \<open>Claims about a second submit\<close>

lemma streaming_page_facts:
  "isStreaming streaming_page" "fullResponse streaming_page = js ''A''"
  "js_trim (input_value streaming_page) \<noteq> []"
  "history streaming_page (js ''tocqueville'') = [\<lparr>role = js ''user'', content = js ''Q''\<rparr>]"
proof -
  note a = asking_facts
  have n: "js_trim (input_value asking) \<noteq> []"
    by (simp only: a simp_thms)
  note b = sendMessage_begin_accepts [OF a(1) n asking_configured]
  have q: "list_all quiet [OnChunk (JStr (js ''A''))]" by simp
  show "isStreaming streaming_page"
    by (simp del: foldl_Cons add: streaming_page_def fold_quiet [OF q] b)
  show "fullResponse streaming_page = js ''A''"
    by (simp del: foldl_Cons add: streaming_page_def fold_quiet [OF q] b appended_text_def)
  show "js_trim (input_value streaming_page) \<noteq> []"
    by (simp add: streaming_page_def js_def js_trim_def is_js_whitespace_def)
  have "history streaming_page (js ''tocqueville'') =
          history (foldl run_effect (fst (sendMessage_begin MASTERS asking)) [OnChunk (JStr (js ''A''))])
            (js ''tocqueville'')"
    unfolding streaming_page_def by (rule history_cong) simp_all
  also have "\<dots> = history (fst (sendMessage_begin MASTERS asking)) (js ''tocqueville'')"
    by (rule history_fold_quiet [OF q])
  also have "\<dots> = [\<lparr>role = js ''user'', content = js ''Q''\<rparr>]"
    using b(2) by (simp only: a append_Nil)
  finally show "history streaming_page (js ''tocqueville'') =
      [\<lparr>role = js ''user'', content = js ''Q''\<rparr>]" .
qed

text \<open>
  C4 as stated fails: while the answer is streaming, a second \<^verbatim>\<open>sendMessage\<close> with a
  message typed is not rejected with any condition. Its promise resolves, nothing is
  thrown, and no toast and no console entry reports anything.
\<close>

theorem second_submit_not_rejected:
  "isStreaming streaming_page \<and> js_trim (input_value streaming_page) \<noteq> [] \<and>
   fst (sendMessage MASTERS example_parse (Body scenario_chunks SourceClosed) streaming_page) = Returned \<and>
   (\<forall>err.
      fst (sendMessage MASTERS example_parse (Body scenario_chunks SourceClosed) streaming_page) \<noteq>
        Threw err) \<and>
   toasts (snd (sendMessage MASTERS example_parse (Body scenario_chunks SourceClosed) streaming_page)) =
     toasts streaming_page \<and>
   console (snd (sendMessage MASTERS example_parse (Body scenario_chunks SourceClosed) streaming_page)) =
     console streaming_page"
  using streaming_page_facts(1,3)
  by (simp add: sendMessage_def sendMessage_begin_rejects)

text \<open>
  C4, amended. While a response is being streamed, \<^verbatim>\<open>sendMessage\<close> returns at its
  guard, before the call of \<^verbatim>\<open>api.streamMessage\<close>: it resolves without signalling
  anything and leaves the whole state as it was, so the stored history, the text
  accumulated so far and the turn in flight are untouched.
\<close>

theorem second_submit_ignored:
  "isStreaming w \<Longrightarrow>
     sendMessage_begin masters w = (w, Some Returned) \<and>
     sendMessage masters parse resp w = (Returned, w)"
  by (simp add: sendMessage_def sendMessage_begin_rejects)

theorem second_submit_ignored_witness:
  "isStreaming streaming_page \<and> fullResponse streaming_page = js ''A'' \<and>
   history streaming_page (js ''tocqueville'') = [\<lparr>role = js ''user'', content = js ''Q''\<rparr>] \<and>
   sendMessage_begin MASTERS streaming_page = (streaming_page, Some Returned) \<and>
   sendMessage MASTERS example_parse (Body scenario_chunks SourceClosed) streaming_page =
     (Returned, streaming_page)"
  using second_submit_ignored [OF streaming_page_facts(1), of MASTERS example_parse
      "Body scenario_chunks SourceClosed"] streaming_page_facts
  by blast

end
